theory Spec2Isabelle
  imports Main "HOL-Library.Char_ord" "HOL-Library.List_Lexorder" "HOL-Library.Sublist"
begin

section \<open>The inventory store of inventory-manager.py\<close>

text \<open>
  The program keeps its items in one SQLite table and reaches it through the methods of
  \<^verbatim>\<open>InventoryDatabase\<close>; \<^verbatim>\<open>InventoryShell\<close> is a command loop around them. The
  embedding below follows the Python text method by method, and gives each SQL statement
  the meaning it has on the table the schema declares.

  Conventions.
  \<^item> A Python value that the methods bind to a statement is \<open>None\<close>, an \<open>int\<close> or a
    \<open>str\<close>; these are also the values a column holds (NULL, INTEGER, TEXT). Python
    integers are unbounded, hence \<open>int\<close>; an INTEGER of SQLite has 64 bits, and binding
    an \<open>int\<close> outside that range raises \<^verbatim>\<open>OverflowError\<close> before the statement
    runs.
  \<^item> A value is kept in a column as it was bound. SQLite converts a value whose type is
    not the declared type of its column (an integer bound to a TEXT column becomes its
    decimal text, a text that reads as a number bound to the INTEGER column becomes that
    number, which may be a floating-point one); this conversion is not part of the
    model. It changes no result, no exception and no other row, and the theorems that
    read a value back bind a text to a TEXT column and an integer to the INTEGER column.
  \<^item> Strings are lists of characters, compared as Python compares \<open>str\<close>: position by
    position, a proper prefix first.
  \<^item> \<^verbatim>\<open>datetime.now().isoformat()\<close> is an input of the methods that call it: the
    parameter \<open>current_time\<close>, the text the clock gives at that call.
  \<^item> An exception is a value \<open>Inl e\<close>; the store is then the one before the call.
    Failures of the file system are outside the model.
\<close>

subsection \<open>Values, rows and the store\<close>

datatype val = VNone | VInt int | VStr string

datatype error = IntegrityError | OverflowError | OperationalError | ValueError | TypeError

type_synonym timestamp = string

text \<open>
  One row of \<^verbatim>\<open>items\<close>, in the order of the columns of \<^verbatim>\<open>CREATE TABLE\<close>
  (which is the order of the tuple \<^verbatim>\<open>SELECT *\<close> returns). The column \<^verbatim>\<open>id\<close> is the
  field \<open>item_id\<close>.
\<close>

record item =
  item_id :: int
  name :: val
  description :: val
  location :: val
  quantity :: val
  date_added :: timestamp
  last_modified :: timestamp

text \<open>
  The table: its rows in the order of their insertion, and the counter that
  \<^verbatim>\<open>AUTOINCREMENT\<close> keeps in \<^verbatim>\<open>sqlite_sequence\<close>, the largest id the table ever
  gave out (0 for a table that never held a row).
\<close>

record store =
  rows :: "item list"
  seq :: int

definition create_tables :: store where
  "create_tables = \<lparr>rows = [], seq = 0\<rparr>"

subsection \<open>\<^verbatim>\<open>InventoryDatabase\<close>\<close>

text \<open>
  The integers SQLite holds, and the values the \<^verbatim>\<open>sqlite3\<close> module can bind to a
  parameter: any text, \<open>None\<close>, and an \<open>int\<close> in that range.
\<close>

definition in_range :: "int \<Rightarrow> bool" where
  "in_range n = (- (2 ^ 63) \<le> n \<and> n < 2 ^ 63)"

fun bindable :: "val \<Rightarrow> bool" where
  "bindable VNone = True"
| "bindable (VInt n) = in_range n"
| "bindable (VStr s) = True"

text \<open>
  \<^verbatim>\<open>INTEGER PRIMARY KEY AUTOINCREMENT\<close>: the id of a new row is one more than the
  largest id the table holds or ever held. The model puts no bound on the counter. SQLite
  refuses the \<^verbatim>\<open>INSERT\<close> once the largest id is \<open>2\<^sup>6\<^sup>3 - 1\<close>, which takes
  \<open>2\<^sup>6\<^sup>3 - 1\<close> calls of \<^verbatim>\<open>add_item\<close> on a new table, since no method of the
  program chooses an id.
\<close>

definition next_rowid :: "store \<Rightarrow> int" where
  "next_rowid s = fold max (map item_id (rows s)) (seq s) + 1"

text \<open>
  \<^verbatim>\<open>add_item\<close>: one \<^verbatim>\<open>INSERT\<close> with both timestamps set to the same reading of the
  clock; returns \<^verbatim>\<open>cursor.lastrowid\<close>. The four arguments are bound first; then the
  statement runs, and the column \<^verbatim>\<open>name\<close> is \<^verbatim>\<open>NOT NULL\<close>.
\<close>

definition add_item ::
  "store \<Rightarrow> timestamp \<Rightarrow> val \<Rightarrow> val \<Rightarrow> val \<Rightarrow> val \<Rightarrow> error + (int \<times> store)" where
  "add_item s current_time nm descr loc qty =
     (if \<not> (bindable nm \<and> bindable descr \<and> bindable loc \<and> bindable qty)
      then Inl OverflowError
      else if nm = VNone then Inl IntegrityError
      else
        let i = next_rowid s;
            r = \<lparr>item_id = i, name = nm, description = descr, location = loc,
                 quantity = qty, date_added = current_time, last_modified = current_time\<rparr>
        in Inr (i, s\<lparr>rows := rows s @ [r], seq := i\<rparr>))"

text \<open>
  \<^verbatim>\<open>get_item\<close>: the id is bound; \<^verbatim>\<open>fetchone\<close> gives the first row with the id,
  or \<open>None\<close>.
\<close>

definition get_item :: "store \<Rightarrow> int \<Rightarrow> error + item option" where
  "get_item s i =
     (if \<not> in_range i then Inl OverflowError
      else Inr (find (\<lambda>r. item_id r = i) (rows s)))"

definition allowed_fields :: "string set" where
  "allowed_fields = {''name'', ''description'', ''location'', ''quantity''}"

text \<open>
  The \<^verbatim>\<open>SET\<close> clause built from \<open>updates\<close>: each column named there takes its
  value, and \<^verbatim>\<open>last_modified\<close>, which \<^verbatim>\<open>update_item\<close> adds to the dictionary,
  takes the reading of the clock.
\<close>

definition set_clause :: "(string \<times> val) list \<Rightarrow> timestamp \<Rightarrow> item \<Rightarrow> item" where
  "set_clause updates current_time r =
     r\<lparr>name := (case map_of updates ''name'' of Some v \<Rightarrow> v | None \<Rightarrow> name r),
       description :=
         (case map_of updates ''description'' of Some v \<Rightarrow> v | None \<Rightarrow> description r),
       location := (case map_of updates ''location'' of Some v \<Rightarrow> v | None \<Rightarrow> location r),
       quantity := (case map_of updates ''quantity'' of Some v \<Rightarrow> v | None \<Rightarrow> quantity r),
       last_modified := current_time\<rparr>"

text \<open>
  \<^verbatim>\<open>update_item\<close>. \<open>kwargs\<close> is the dictionary of the keyword arguments, as the list
  of its items. With no allowed field the method returns before it reaches the database.
  Otherwise the values of the allowed fields and the id are bound; then the
  \<^verbatim>\<open>UPDATE\<close> runs, and fails on \<^verbatim>\<open>NOT NULL\<close> when it would give a row the name
  \<open>None\<close>, which needs a row with the id. The result is \<open>True\<close> whatever the number
  of rows the statement changed.
\<close>

definition update_item ::
  "store \<Rightarrow> timestamp \<Rightarrow> int \<Rightarrow> (string \<times> val) list \<Rightarrow> error + (bool \<times> store)" where
  "update_item s current_time i kwargs =
     (let updates = filter (\<lambda>(k, v). k \<in> allowed_fields) kwargs in
      if updates = [] then Inr (False, s)
      else if \<not> (list_all bindable (map snd updates) \<and> in_range i) then Inl OverflowError
      else if map_of updates ''name'' = Some VNone \<and> i \<in> set (map item_id (rows s))
      then Inl IntegrityError
      else Inr (True,
        s\<lparr>rows := map (\<lambda>r. if item_id r = i then set_clause updates current_time r else r)
                     (rows s)\<rparr>))"

text \<open>
  \<^verbatim>\<open>delete_item\<close>: the id is bound; \<^verbatim>\<open>cursor.rowcount\<close> is the number of rows
  deleted.
\<close>

definition delete_item :: "store \<Rightarrow> int \<Rightarrow> error + (bool \<times> store)" where
  "delete_item s i =
     (if \<not> in_range i then Inl OverflowError
      else
        let rowcount = length (filter (\<lambda>r. item_id r = i) (rows s))
        in Inr (rowcount > 0, s\<lparr>rows := filter (\<lambda>r. item_id r \<noteq> i) (rows s)\<rparr>))"

definition list_items :: "store \<Rightarrow> item list" where
  "list_items s = rows s"

subsection \<open>\<^verbatim>\<open>search_items\<close> and \<^verbatim>\<open>LIKE\<close>\<close>

text \<open>
  \<^verbatim>\<open>LIKE\<close> as SQLite evaluates it with no \<^verbatim>\<open>ESCAPE\<close> and no pragma. It reads the
  pattern and the text as C strings, each up to its first NUL character. In the pattern
  \<^verbatim>\<open>%\<close> stands for any run of characters and \<^verbatim>\<open>_\<close> for any one character, and
  every other character stands for itself, the letters A to Z and a to z without regard to
  case.
\<close>

definition c_string :: "string \<Rightarrow> string" where
  "c_string s = takeWhile (\<lambda>c. c \<noteq> CHR 0x00) s"

definition lower :: "char \<Rightarrow> char" where
  "lower c =
     (if (65::nat) \<le> of_char c \<and> of_char c \<le> (90::nat)
      then char_of (of_char c + (32::nat)) else c)"

fun pattern_compare :: "string \<Rightarrow> string \<Rightarrow> bool" where
  "pattern_compare [] s = (s = [])"
| "pattern_compare (p # ps) [] = (p = CHR ''%'' \<and> pattern_compare ps [])"
| "pattern_compare (p # ps) (c # cs) =
     (if p = CHR ''%'' then pattern_compare ps (c # cs) \<or> pattern_compare (p # ps) cs
      else (p = CHR ''_'' \<or> lower p = lower c) \<and> pattern_compare ps cs)"

definition like :: "string \<Rightarrow> string \<Rightarrow> bool" where
  "like pattern s = pattern_compare (c_string pattern) (c_string s)"

text \<open>The decimal text of an integer: \<^verbatim>\<open>LIKE\<close> reads a number as its text.\<close>

fun digits :: "nat \<Rightarrow> string" where
  "digits n =
     (if n < 10 then [char_of (48 + n)]
      else digits (n div 10) @ [char_of (48 + n mod 10)])"

definition decimal :: "int \<Rightarrow> string" where
  "decimal n = (if n < 0 then CHR ''-'' # digits (nat (- n)) else digits (nat n))"

text \<open>
  \<open>x LIKE pattern\<close> as a condition of \<^verbatim>\<open>WHERE\<close>: on NULL the result is NULL, and
  the row is not selected.
\<close>

fun text_of :: "val \<Rightarrow> string option" where
  "text_of VNone = None"
| "text_of (VInt n) = Some (decimal n)"
| "text_of (VStr s) = Some s"

definition like_val :: "val \<Rightarrow> string \<Rightarrow> bool" where
  "like_val v pattern = (case text_of v of None \<Rightarrow> False | Some s \<Rightarrow> like pattern s)"

text \<open>
  The length of a text in bytes, as SQLite holds it (UTF-8): one byte for a character
  below 128, two for the others up to 255.
\<close>

definition utf8_length :: "string \<Rightarrow> int" where
  "utf8_length s = sum_list (map (\<lambda>c. if of_char c < (128::nat) then 1 else 2) s)"

text \<open>
  \<^verbatim>\<open>search_items\<close>. Each evaluation of \<^verbatim>\<open>LIKE\<close> first refuses a pattern of
  more than 50000 bytes (\<^verbatim>\<open>OperationalError\<close>: the pattern is too complex); the
  condition is evaluated once the table has a row.
\<close>

definition search_items :: "store \<Rightarrow> string \<Rightarrow> error + item list" where
  "search_items s search_term =
     (let pattern = ''%'' @ search_term @ ''%'' in
      if rows s \<noteq> [] \<and> 50000 < utf8_length pattern then Inl OperationalError
      else Inr (filter (\<lambda>r. like_val (name r) pattern \<or> like_val (description r) pattern)
                  (rows s)))"

text \<open>
  What the specification asks of a search: the term occurs in the text of the value, as
  \<^verbatim>\<open>term in text\<close> decides it in Python. NULL has no text and contains nothing.
\<close>

definition contains :: "val \<Rightarrow> string \<Rightarrow> bool" where
  "contains v t = (case text_of v of None \<Rightarrow> False | Some s \<Rightarrow> sublist t s)"

text \<open>The same, without regard to the case of the letters A to Z.\<close>

definition contains_nocase :: "val \<Rightarrow> string \<Rightarrow> bool" where
  "contains_nocase v t =
     (case text_of v of None \<Rightarrow> False | Some s \<Rightarrow> sublist (map lower t) (map lower s))"

text \<open>A value as \<^verbatim>\<open>LIKE\<close> reads it: its text up to the first NUL.\<close>

definition up_to_nul :: "val \<Rightarrow> val" where
  "up_to_nul v = (case text_of v of None \<Rightarrow> VNone | Some s \<Rightarrow> VStr (c_string s))"

subsection \<open>\<^verbatim>\<open>InventoryShell.do_add\<close>\<close>

text \<open>
  \<^verbatim>\<open>str.isspace\<close> on one character, for the characters up to 255: tab to carriage
  return, the four separators 28 to 31, the space, NEL and the no-break space.
\<close>

definition isspace :: "char \<Rightarrow> bool" where
  "isspace c =
     (let n = (of_char c :: nat)
      in (9 \<le> n \<and> n \<le> 13) \<or> (28 \<le> n \<and> n \<le> 32) \<or> n = 133 \<or> n = 160)"

text \<open>
  \<^verbatim>\<open>arg.split(maxsplit=n)\<close>: leading whitespace is skipped before every word; after
  \<open>n\<close> words the rest of the line, if anything but whitespace is left, is the last
  element, with its leading whitespace removed and everything else kept.
\<close>

fun split_maxsplit :: "nat \<Rightarrow> string \<Rightarrow> string list" where
  "split_maxsplit 0 s =
     (let r = dropWhile isspace s in if r = [] then [] else [r])"
| "split_maxsplit (Suc n) s =
     (let r = dropWhile isspace s in
      if r = [] then []
      else takeWhile (\<lambda>c. \<not> isspace c) r
             # split_maxsplit n (dropWhile (\<lambda>c. \<not> isspace c) r))"

text \<open>\<^verbatim>\<open>arg.split()\<close>, with no bound on the number of words: the tokens of a line.\<close>

function tokens :: "string \<Rightarrow> string list" where
  "tokens s =
     (let r = dropWhile isspace s in
      if r = [] then []
      else takeWhile (\<lambda>c. \<not> isspace c) r # tokens (dropWhile (\<lambda>c. \<not> isspace c) r))"
  by pat_completeness auto
termination
proof (relation "measure length")
  show "wf (measure length)" by simp
next
  fix s r :: string
  assume r: "r = dropWhile isspace s" and ne: "r \<noteq> []"
  from r ne have "\<not> isspace (hd r)"
    using hd_dropWhile [of isspace s] by simp
  with ne have "dropWhile (\<lambda>c. \<not> isspace c) r = dropWhile (\<lambda>c. \<not> isspace c) (tl r)"
    by (cases r) auto
  then have "length (dropWhile (\<lambda>c. \<not> isspace c) r) \<le> length (tl r)"
    using length_dropWhile_le [of "\<lambda>c. \<not> isspace c" "tl r"] by simp
  moreover have "length (tl r) < length r"
    using ne by (cases r) auto
  moreover have "length r \<le> length s"
    using r by (simp add: length_dropWhile_le)
  ultimately show "(dropWhile (\<lambda>c. \<not> isspace c) r, s) \<in> measure length"
    by simp
qed

declare tokens.simps [simp del]

text \<open>
  What is left of a line after its first \<open>n\<close> tokens, from the first character that is
  not whitespace on.
\<close>

fun remainder :: "nat \<Rightarrow> string \<Rightarrow> string" where
  "remainder 0 s = dropWhile isspace s"
| "remainder (Suc n) s = remainder n (dropWhile (\<lambda>c. \<not> isspace c) (dropWhile isspace s))"

text \<open>
  \<^verbatim>\<open>str.strip\<close>, which the command loop applies to the line before it calls
  \<^verbatim>\<open>do_add\<close>.
\<close>

definition strip :: "string \<Rightarrow> string" where
  "strip s = rev (dropWhile isspace (rev (dropWhile isspace s)))"

text \<open>
  \<^verbatim>\<open>int(x)\<close>. On an \<open>int\<close> it is the identity; on \<open>None\<close> it raises
  \<^verbatim>\<open>TypeError\<close>. On a \<open>str\<close>, whitespace at both ends is skipped, where
  whitespace is tab to carriage return, the space, NEL and the no-break space (not the
  separators 28 to 31, which \<^verbatim>\<open>split\<close> takes for whitespace). What is left is an
  optional sign and then decimal digits, where one underscore may stand between two
  digits; of digits there may be 4300 at most. Anything else raises
  \<^verbatim>\<open>ValueError\<close>.
\<close>

definition isdigit :: "char \<Rightarrow> bool" where
  "isdigit c = ((48::nat) \<le> of_char c \<and> of_char c \<le> (57::nat))"

definition int_isspace :: "char \<Rightarrow> bool" where
  "int_isspace c =
     (let n = (of_char c :: nat)
      in (9 \<le> n \<and> n \<le> 13) \<or> n = 32 \<or> n = 133 \<or> n = 160)"

definition int_strip :: "string \<Rightarrow> string" where
  "int_strip s = rev (dropWhile int_isspace (rev (dropWhile int_isspace s)))"

fun digits_ok :: "string \<Rightarrow> bool" where
  "digits_ok [] = False"
| "digits_ok [c] = isdigit c"
| "digits_ok (c # d # cs) =
     (isdigit c \<and> (if d = CHR ''_'' then digits_ok cs else digits_ok (d # cs)))"

definition digits_value :: "string \<Rightarrow> int" where
  "digits_value s =
     foldl (\<lambda>a c. 10 * a + (int (of_char c) - 48)) 0 (filter (\<lambda>c. c \<noteq> CHR ''_'') s)"

definition digits_count :: "string \<Rightarrow> int" where
  "digits_count s = int (length (filter (\<lambda>c. c \<noteq> CHR ''_'') s))"

definition int_of_digits :: "string \<Rightarrow> int option" where
  "int_of_digits s =
     (if digits_ok s \<and> digits_count s \<le> 4300 then Some (digits_value s) else None)"

definition int_of_str :: "string \<Rightarrow> int option" where
  "int_of_str s =
     (case int_strip s of
        [] \<Rightarrow> None
      | c # cs \<Rightarrow>
          if c = CHR ''-'' then map_option uminus (int_of_digits cs)
          else if c = CHR ''+'' then int_of_digits cs
          else int_of_digits (c # cs))"

fun py_int :: "val \<Rightarrow> error + int" where
  "py_int (VInt n) = Inr n"
| "py_int VNone = Inl TypeError"
| "py_int (VStr s) = (case int_of_str s of None \<Rightarrow> Inl ValueError | Some n \<Rightarrow> Inr n)"

text \<open>What \<^verbatim>\<open>do_add\<close> prints.\<close>

datatype printed = Error_item_name_required | Added_item_with_ID int

text \<open>
  \<^verbatim>\<open>do_add\<close>: the store is the one behind \<^verbatim>\<open>self.db\<close>. Only \<^verbatim>\<open>ValueError\<close>
  is caught around \<^verbatim>\<open>int(quantity)\<close>; any other exception, and any exception of
  \<^verbatim>\<open>add_item\<close>, leaves the method.
\<close>

definition do_add :: "store \<Rightarrow> timestamp \<Rightarrow> string \<Rightarrow> error + (printed \<times> store)" where
  "do_add s current_time arg =
     (let args = split_maxsplit 3 arg in
      if args = [] then Inr (Error_item_name_required, s)
      else
        let nm = VStr (args ! 0);
            descr = (if length args > 1 then VStr (args ! 1) else VNone);
            loc = (if length args > 2 then VStr (args ! 2) else VNone);
            qty = (if length args > 3 then VStr (args ! 3) else VInt 1)
        in case (case py_int qty of
                   Inr n \<Rightarrow> Inr n
                 | Inl e \<Rightarrow> if e = ValueError then Inr 1 else Inl e) of
             Inl e \<Rightarrow> Inl e
           | Inr n \<Rightarrow>
               (case add_item s current_time nm descr loc (VInt n) of
                  Inl e \<Rightarrow> Inl e
                | Inr (i, s') \<Rightarrow> Inr (Added_item_with_ID i, s')))"

subsection \<open>Sequences of calls\<close>

text \<open>
  A call of one of the three methods that write, with the reading of the clock at the
  call. \<open>perform\<close> gives the ids that the call returned (one for \<^verbatim>\<open>add_item\<close>, none
  otherwise) and the store after it; a call that raises returns nothing and leaves the
  store as it was.
\<close>

datatype call =
  Add val val val val
| Update int "(string \<times> val) list"
| Delete int

fun perform :: "store \<Rightarrow> timestamp \<times> call \<Rightarrow> int list \<times> store" where
  "perform s (t, Add nm descr loc qty) =
     (case add_item s t nm descr loc qty of Inl e \<Rightarrow> ([], s) | Inr (i, s') \<Rightarrow> ([i], s'))"
| "perform s (t, Update i kwargs) =
     (case update_item s t i kwargs of Inl e \<Rightarrow> ([], s) | Inr (b, s') \<Rightarrow> ([], s'))"
| "perform s (t, Delete i) =
     (case delete_item s i of Inl e \<Rightarrow> ([], s) | Inr (b, s') \<Rightarrow> ([], s'))"

fun run :: "store \<Rightarrow> (timestamp \<times> call) list \<Rightarrow> int list \<times> store" where
  "run s [] = ([], s)"
| "run s (c # cs) =
     (let (ids, s') = perform s c; (ids', s'') = run s' cs in (ids @ ids', s''))"

subsection \<open>A store for the examples\<close>

text \<open>
  The store after \<^verbatim>\<open>add_item("Hammer", "Claw hammer", "Shelf A", 3)\<close> on a new
  database.
\<close>

definition shelf :: store where
  "shelf =
     \<lparr>rows = [\<lparr>item_id = 1, name = VStr ''Hammer'', description = VStr ''Claw hammer'',
               location = VStr ''Shelf A'', quantity = VInt 3,
               date_added = ''2024-11-03T01:30:00'',
               last_modified = ''2024-11-03T01:30:00''\<rparr>],
      seq = 1\<rparr>"

text \<open>The same store with a second item.\<close>

definition toolbox :: store where
  "toolbox =
     \<lparr>rows = [\<lparr>item_id = 1, name = VStr ''Hammer'', description = VStr ''Claw hammer'',
               location = VStr ''Shelf A'', quantity = VInt 3,
               date_added = ''2024-11-03T01:30:00'',
               last_modified = ''2024-11-03T01:30:00''\<rparr>,
              \<lparr>item_id = 2, name = VStr ''Saw'', description = VNone,
               location = VStr ''Shelf B'', quantity = VInt 1,
               date_added = ''2024-11-03T01:40:00'',
               last_modified = ''2024-11-03T01:40:00''\<rparr>],
      seq = 2\<rparr>"

text \<open>A store whose one item has a NUL character in its name.\<close>

definition labels :: store where
  "labels =
     \<lparr>rows = [\<lparr>item_id = 1, name = VStr [CHR ''a'', CHR 0x00, CHR ''b''], description = VNone,
               location = VNone, quantity = VInt 1,
               date_added = ''2024-11-03T01:30:00'',
               last_modified = ''2024-11-03T01:30:00''\<rparr>],
      seq = 1\<rparr>"

text \<open>
  An optional text argument, as \<^verbatim>\<open>do_add\<close> passes \<^verbatim>\<open>description\<close> and
  \<^verbatim>\<open>location\<close>: \<open>None\<close> or a \<open>str\<close>.
\<close>

definition optional :: "string option \<Rightarrow> val" where
  "optional x = (case x of None \<Rightarrow> VNone | Some t \<Rightarrow> VStr t)"

section \<open>\<^verbatim>\<open>update_item\<close>: the result\<close>













section \<open>\<^verbatim>\<open>search_items\<close>: what \<^verbatim>\<open>LIKE\<close> selects\<close>

lemma pattern_compare_percent:
  "pattern_compare (CHR ''%'' # ps) s \<longleftrightarrow> (\<exists>pre post. s = pre @ post \<and> pattern_compare ps post)"
proof (induction s)
  case Nil
  then show ?case by simp
next
  case (Cons c cs)
  show ?case
  proof
    assume "pattern_compare (CHR ''%'' # ps) (c # cs)"
    then consider "pattern_compare ps (c # cs)" | "pattern_compare (CHR ''%'' # ps) cs" by auto
    then show "\<exists>pre post. c # cs = pre @ post \<and> pattern_compare ps post"
    proof cases
      case 1
      then have "c # cs = [] @ (c # cs) \<and> pattern_compare ps (c # cs)" by simp
      then show ?thesis by blast
    next
      case 2
      with Cons.IH obtain pre post where "cs = pre @ post" "pattern_compare ps post" by blast
      then have "c # cs = (c # pre) @ post \<and> pattern_compare ps post" by simp
      then show ?thesis by blast
    qed
  next
    assume "\<exists>pre post. c # cs = pre @ post \<and> pattern_compare ps post"
    then obtain pre post where e: "c # cs = pre @ post" and l: "pattern_compare ps post" by blast
    show "pattern_compare (CHR ''%'' # ps) (c # cs)"
    proof (cases pre)
      case Nil
      with e have "post = c # cs" by simp
      with l show ?thesis by simp
    next
      case (Cons a pre')
      with e have "cs = pre' @ post" by simp
      with l Cons.IH have "pattern_compare (CHR ''%'' # ps) cs" by blast
      then show ?thesis by simp
    qed
  qed
qed

lemma pattern_compare_percent_end:
  "pattern_compare (ps @ ''%'') s \<longleftrightarrow> (\<exists>mid post. s = mid @ post \<and> pattern_compare ps mid)"
proof (induction ps s rule: pattern_compare.induct)
  case (1 s)
  have "pattern_compare ''%'' s" by (induction s) auto
  then show ?case by simp
next
  case (2 p ps)
  then show ?case by auto
next
  case (3 p ps c cs)
  show ?case
  proof (cases "p = CHR ''%''")
    case True
    have "pattern_compare ((p # ps) @ ''%'') (c # cs) \<longleftrightarrow>
          pattern_compare (ps @ ''%'') (c # cs) \<or> pattern_compare ((p # ps) @ ''%'') cs"
      using True by simp
    also have "\<dots> \<longleftrightarrow> (\<exists>mid post. c # cs = mid @ post \<and> pattern_compare ps mid) \<or>
                      (\<exists>mid post. cs = mid @ post \<and> pattern_compare (p # ps) mid)"
      using 3 True by simp
    also have "\<dots> \<longleftrightarrow> (\<exists>mid post. c # cs = mid @ post \<and> pattern_compare (p # ps) mid)"
    proof
      assume "(\<exists>mid post. c # cs = mid @ post \<and> pattern_compare ps mid) \<or>
              (\<exists>mid post. cs = mid @ post \<and> pattern_compare (p # ps) mid)"
      then show "\<exists>mid post. c # cs = mid @ post \<and> pattern_compare (p # ps) mid"
      proof
        assume "\<exists>mid post. c # cs = mid @ post \<and> pattern_compare ps mid"
        then obtain mid post where "c # cs = mid @ post" "pattern_compare ps mid" by blast
        moreover from this have "pattern_compare (p # ps) mid"
          using True pattern_compare_percent [of ps mid] by (auto intro: exI [of _ "[]"])
        ultimately show ?thesis by blast
      next
        assume "\<exists>mid post. cs = mid @ post \<and> pattern_compare (p # ps) mid"
        then obtain mid post where m: "cs = mid @ post" "pattern_compare (p # ps) mid" by blast
        then have "pattern_compare (p # ps) (c # mid)" using True by simp
        with m have "c # cs = (c # mid) @ post \<and> pattern_compare (p # ps) (c # mid)" by simp
        then show ?thesis by blast
      qed
    next
      assume "\<exists>mid post. c # cs = mid @ post \<and> pattern_compare (p # ps) mid"
      then obtain mid post where m: "c # cs = mid @ post" "pattern_compare (p # ps) mid" by blast
      show "(\<exists>mid post. c # cs = mid @ post \<and> pattern_compare ps mid) \<or>
            (\<exists>mid post. cs = mid @ post \<and> pattern_compare (p # ps) mid)"
      proof (cases mid)
        case Nil
        with m True show ?thesis by auto
      next
        case (Cons a mid')
        with m have ac: "a = c" "cs = mid' @ post" by auto
        from m Cons True have "pattern_compare ps (c # mid') \<or> pattern_compare (p # ps) mid'" using ac by simp
        then show ?thesis
        proof
          assume "pattern_compare ps (c # mid')"
          with ac have "c # cs = (c # mid') @ post \<and> pattern_compare ps (c # mid')" by simp
          then show ?thesis by blast
        next
          assume "pattern_compare (p # ps) mid'"
          with ac show ?thesis by blast
        qed
      qed
    qed
    finally show ?thesis .
  next
    case False
    have "pattern_compare ((p # ps) @ ''%'') (c # cs) \<longleftrightarrow>
          (p = CHR ''_'' \<or> lower p = lower c) \<and> pattern_compare (ps @ ''%'') cs"
      using False by simp
    also have "\<dots> \<longleftrightarrow> (p = CHR ''_'' \<or> lower p = lower c) \<and>
                      (\<exists>mid post. cs = mid @ post \<and> pattern_compare ps mid)"
      using 3 False by simp
    also have "\<dots> \<longleftrightarrow> (\<exists>mid post. c # cs = mid @ post \<and> pattern_compare (p # ps) mid)"
    proof
      assume "(p = CHR ''_'' \<or> lower p = lower c) \<and> (\<exists>mid post. cs = mid @ post \<and> pattern_compare ps mid)"
      then obtain mid post where m: "p = CHR ''_'' \<or> lower p = lower c" "cs = mid @ post" "pattern_compare ps mid"
        by blast
      then have "c # cs = (c # mid) @ post \<and> pattern_compare (p # ps) (c # mid)" using False by simp
      then show "\<exists>mid post. c # cs = mid @ post \<and> pattern_compare (p # ps) mid" by blast
    next
      assume "\<exists>mid post. c # cs = mid @ post \<and> pattern_compare (p # ps) mid"
      then obtain mid post where m: "c # cs = mid @ post" "pattern_compare (p # ps) mid" by blast
      with False obtain mid' where "mid = c # mid'" by (cases mid) auto
      with m False show "(p = CHR ''_'' \<or> lower p = lower c) \<and> (\<exists>mid post. cs = mid @ post \<and> pattern_compare ps mid)"
        by auto
    qed
    finally show ?thesis .
  qed
qed

lemma pattern_compare_search:
  "pattern_compare (''%'' @ t @ ''%'') s \<longleftrightarrow> (\<exists>pre mid post. s = pre @ mid @ post \<and> pattern_compare t mid)"
proof -
  have "pattern_compare (''%'' @ t @ ''%'') s \<longleftrightarrow> (\<exists>pre rest. s = pre @ rest \<and> pattern_compare (t @ ''%'') rest)"
    using pattern_compare_percent [of "t @ ''%''" s] by simp
  also have "\<dots> \<longleftrightarrow> (\<exists>pre mid post. s = pre @ mid @ post \<and> pattern_compare t mid)"
    by (simp add: pattern_compare_percent_end) blast
  finally show ?thesis .
qed

lemma pattern_compare_refl: "pattern_compare t t"
proof (induction t)
  case Nil
  then show ?case by simp
next
  case (Cons p ps)
  show ?case
  proof (cases "p = CHR ''%''")
    case True
    have "\<exists>pre post. p # ps = pre @ post \<and> pattern_compare ps post"
      using Cons by (intro exI [of _ "[p]"] exI [of _ ps]) simp
    then show ?thesis using True pattern_compare_percent [of ps "p # ps"] by simp
  next
    case False
    with Cons show ?thesis by simp
  qed
qed

lemma pattern_compare_plain:
  "CHR ''%'' \<notin> set t \<Longrightarrow> CHR ''_'' \<notin> set t \<Longrightarrow> pattern_compare t s \<longleftrightarrow> map lower s = map lower t"
  by (induction t s rule: pattern_compare.induct) auto


lemma c_string_no_nul: "CHR 0x00 \<notin> set s \<Longrightarrow> c_string s = s"
  by (auto simp: c_string_def takeWhile_eq_all_conv)

lemma like_search_pattern:
  assumes "CHR 0x00 \<notin> set t"
  shows "like (''%'' @ t @ ''%'') s \<longleftrightarrow>
         (\<exists>pre mid post. c_string s = pre @ mid @ post \<and> pattern_compare t mid)"
proof -
  from assms have "CHR 0x00 \<notin> set (''%'' @ t @ ''%'')" by simp
  then have "c_string (''%'' @ t @ ''%'') = ''%'' @ t @ ''%''" by (rule c_string_no_nul)
  then show ?thesis by (simp only: like_def pattern_compare_search)
qed

lemma text_of_up_to_nul: "text_of (up_to_nul v) = map_option c_string (text_of v)"
  by (cases v) (simp_all add: up_to_nul_def)

lemma contains_like_val:
  assumes "CHR 0x00 \<notin> set t" and "contains (up_to_nul v) t"
  shows "like_val v (''%'' @ t @ ''%'')"
proof (cases "text_of v")
  case None
  with assms(2) show ?thesis by (simp add: contains_def text_of_up_to_nul)
next
  case (Some s)
  with assms(2) obtain ps ss where "c_string s = ps @ t @ ss"
    by (auto simp: contains_def text_of_up_to_nul sublist_def)
  then have "\<exists>pre mid post. c_string s = pre @ mid @ post \<and> pattern_compare t mid"
    using pattern_compare_refl [of t] by blast
  then have "like (''%'' @ t @ ''%'') s"
    using like_search_pattern [OF assms(1), of s] by blast
  with Some show ?thesis by (simp add: like_val_def)
qed

lemma sublist_map_lower:
  "sublist (map lower t) (map lower s) \<longleftrightarrow>
   (\<exists>pre mid post. s = pre @ mid @ post \<and> map lower mid = map lower t)"
proof
  assume "sublist (map lower t) (map lower s)"
  then obtain ps ss where "map lower s = ps @ (map lower t @ ss)"
    by (auto simp: sublist_def)
  then have "\<exists>pre rest. s = pre @ rest \<and> ps = map lower pre \<and> map lower t @ ss = map lower rest"
    by (simp only: map_eq_append_conv)
  then obtain pre rest where 1: "s = pre @ rest" "map lower rest = map lower t @ ss"
    by auto
  from 1(2) have "\<exists>mid post. rest = mid @ post \<and> map lower t = map lower mid \<and> ss = map lower post"
    by (simp only: map_eq_append_conv)
  then obtain mid post where 2: "rest = mid @ post" "map lower mid = map lower t"
    by auto
  with 1 have "s = pre @ mid @ post \<and> map lower mid = map lower t" by simp
  then show "\<exists>pre mid post. s = pre @ mid @ post \<and> map lower mid = map lower t" by blast
next
  assume "\<exists>pre mid post. s = pre @ mid @ post \<and> map lower mid = map lower t"
  then obtain pre mid post where "s = pre @ mid @ post" "map lower mid = map lower t" by blast
  then have "map lower s = map lower pre @ map lower t @ map lower post" by simp
  then show "sublist (map lower t) (map lower s)"
    unfolding sublist_def by blast
qed

lemma like_val_plain:
  assumes "CHR 0x00 \<notin> set t" "CHR ''%'' \<notin> set t" "CHR ''_'' \<notin> set t"
  shows "like_val v (''%'' @ t @ ''%'') \<longleftrightarrow> contains_nocase (up_to_nul v) t"
proof (cases "text_of v")
  case None
  then show ?thesis by (simp add: like_val_def contains_nocase_def text_of_up_to_nul)
next
  case (Some s)
  have "like (''%'' @ t @ ''%'') s \<longleftrightarrow>
        (\<exists>pre mid post. c_string s = pre @ mid @ post \<and> pattern_compare t mid)"
    using assms(1) by (rule like_search_pattern)
  also have "\<dots> \<longleftrightarrow>
        (\<exists>pre mid post. c_string s = pre @ mid @ post \<and> map lower mid = map lower t)"
    using assms(2,3) by (simp add: pattern_compare_plain)
  also have "\<dots> \<longleftrightarrow> sublist (map lower t) (map lower (c_string s))"
    by (simp only: sublist_map_lower)
  finally show ?thesis
    using Some by (simp add: like_val_def contains_nocase_def text_of_up_to_nul)
qed

lemma utf8_length_pattern: "utf8_length (''%'' @ t @ ''%'') = utf8_length t + 2"
  by (simp add: utf8_length_def)

text \<open>
  C2, as the code has it. \<^verbatim>\<open>search_items\<close> selects with \<^verbatim>\<open>LIKE\<close>, which reads a
  name or description up to its first NUL character, reads \<^verbatim>\<open>%\<close> and \<^verbatim>\<open>_\<close> in the
  term as wildcards, ignores the case of the letters A to Z, and refuses a pattern of more
  than 50000 bytes. For a term of at most 49998 bytes without a NUL character:
  \<^item> every item whose name or description, read up to its first NUL, contains the term
    is returned;
  \<^item> when the term has neither wildcard, the result is exactly the items whose name or
    description, read up to its first NUL, contains the term when that case is ignored,
    in the order of the table.

  For a longer term the search raises \<^verbatim>\<open>OperationalError\<close> as soon as the table has a
  row.
\<close>

theorem search_items_like:
  "(utf8_length t \<le> 49998 \<and> CHR 0x00 \<notin> set t \<longrightarrow>
      (\<exists>res. search_items s t = Inr res \<and>
         {r \<in> set (rows s). contains (up_to_nul (name r)) t \<or>
                           contains (up_to_nul (description r)) t} \<subseteq> set res)) \<and>
   (utf8_length t \<le> 49998 \<and> CHR 0x00 \<notin> set t \<and> CHR ''%'' \<notin> set t \<and> CHR ''_'' \<notin> set t \<longrightarrow>
      search_items s t =
        Inr (filter (\<lambda>r. contains_nocase (up_to_nul (name r)) t \<or>
                        contains_nocase (up_to_nul (description r)) t) (rows s))) \<and>
   (rows s \<noteq> [] \<and> 49998 < utf8_length t \<longrightarrow> search_items s t = Inl OperationalError)"
proof (intro conjI impI)
  assume a: "utf8_length t \<le> 49998 \<and> CHR 0x00 \<notin> set t"
  then have "search_items s t =
      Inr (filter (\<lambda>r. like_val (name r) (''%'' @ t @ ''%'') \<or>
                      like_val (description r) (''%'' @ t @ ''%'')) (rows s))"
    using utf8_length_pattern [of t] by (simp add: search_items_def Let_def)
  moreover have "{r \<in> set (rows s). contains (up_to_nul (name r)) t \<or>
                           contains (up_to_nul (description r)) t}
      \<subseteq> set (filter (\<lambda>r. like_val (name r) (''%'' @ t @ ''%'') \<or>
                      like_val (description r) (''%'' @ t @ ''%'')) (rows s))"
    using a contains_like_val [of t] by auto
  ultimately show "\<exists>res. search_items s t = Inr res \<and>
         {r \<in> set (rows s). contains (up_to_nul (name r)) t \<or>
                           contains (up_to_nul (description r)) t} \<subseteq> set res"
    by blast
next
  assume a: "utf8_length t \<le> 49998 \<and> CHR 0x00 \<notin> set t \<and> CHR ''%'' \<notin> set t \<and> CHR ''_'' \<notin> set t"
  then have "\<And>v. like_val v (''%'' @ t @ ''%'') \<longleftrightarrow> contains_nocase (up_to_nul v) t"
    using like_val_plain [of t] by blast
  moreover from a have "\<not> 50000 < utf8_length (''%'' @ t @ ''%'')"
    using utf8_length_pattern [of t] by simp
  ultimately show "search_items s t =
        Inr (filter (\<lambda>r. contains_nocase (up_to_nul (name r)) t \<or>
                        contains_nocase (up_to_nul (description r)) t) (rows s))"
    by (simp add: search_items_def Let_def del: append.simps)
next
  assume "rows s \<noteq> [] \<and> 49998 < utf8_length t"
  then show "search_items s t = Inl OperationalError"
    using utf8_length_pattern [of t] by (simp add: search_items_def Let_def)
qed

theorem search_items_like_witness:
  "utf8_length ''claw'' \<le> 49998 \<and>
   CHR 0x00 \<notin> set ''claw'' \<and> CHR ''%'' \<notin> set ''claw'' \<and> CHR ''_'' \<notin> set ''claw'' \<and>
   search_items shelf ''claw'' =
     Inr (filter (\<lambda>r. contains_nocase (up_to_nul (name r)) ''claw'' \<or>
                     contains_nocase (up_to_nul (description r)) ''claw'') (rows shelf)) \<and>
   search_items shelf ''claw'' = Inr (rows shelf)"
proof -
  have 1: "utf8_length ''claw'' \<le> 49998 \<and>
      CHR 0x00 \<notin> set ''claw'' \<and> CHR ''%'' \<notin> set ''claw'' \<and> CHR ''_'' \<notin> set ''claw''"
    by (simp add: utf8_length_def)
  have 2: "search_items shelf ''claw'' = Inr (rows shelf)"
    by code_simp
  have 3: "search_items shelf ''claw'' =
     Inr (filter (\<lambda>r. contains_nocase (up_to_nul (name r)) ''claw'' \<or>
                     contains_nocase (up_to_nul (description r)) ''claw'') (rows shelf))"
    using 1 search_items_like [of "''claw''" shelf] by blast
  from 1 2 3 show ?thesis by (intro conjI) blast+
qed

text \<open>
  C2 as the claim states it fails in both directions. The search for \<^verbatim>\<open>a%r\<close> returns
  the hammer, whose name and description do not contain \<^verbatim>\<open>a%r\<close>, whatever the case of
  the letters; and the search for \<^verbatim>\<open>b\<close> misses the item whose name is \<^verbatim>\<open>a\<close>, NUL,
  \<^verbatim>\<open>b\<close>, which contains \<^verbatim>\<open>b\<close>.
\<close>

theorem search_items_substring_counterexample:
  "search_items shelf ''a%r'' = Inr (rows shelf) \<and> rows shelf \<noteq> [] \<and>
   filter (\<lambda>r. contains (name r) ''a%r'' \<or> contains (description r) ''a%r'' \<or>
              contains_nocase (name r) ''a%r'' \<or> contains_nocase (description r) ''a%r'')
     (rows shelf) = [] \<and>
   search_items labels ''b'' = Inr [] \<and>
   filter (\<lambda>r. contains (name r) ''b'') (rows labels) = rows labels \<and> rows labels \<noteq> []"
  by code_simp

section \<open>\<^verbatim>\<open>add_item\<close> and \<^verbatim>\<open>get_item\<close>\<close>

lemma fold_max_ge: "a \<le> fold max xs (a::int) \<and> (\<forall>x\<in>set xs. x \<le> fold max xs a)"
proof (induction xs arbitrary: a)
  case Nil
  then show ?case by simp
next
  case (Cons y ys)
  have "max y a \<le> fold max ys (max y a)" using Cons [of "max y a"] by blast
  moreover have "\<forall>x\<in>set ys. x \<le> fold max ys (max y a)" using Cons [of "max y a"] by blast
  ultimately show ?case by auto
qed

lemma next_rowid_fresh: "r \<in> set (rows s) \<Longrightarrow> item_id r < next_rowid s"
  using fold_max_ge [of "seq s" "map item_id (rows s)"] by (auto simp: next_rowid_def)

lemma find_snoc:
  "(\<And>x. x \<in> set xs \<Longrightarrow> \<not> P x) \<Longrightarrow> P r \<Longrightarrow> find P (xs @ [r]) = Some r"
  by (induction xs) auto

lemma get_item_new:
  "get_item (s\<lparr>rows := rows s @ [r], seq := k\<rparr>) (next_rowid s) = Inr (Some r)"
  if "item_id r = next_rowid s" and "in_range (next_rowid s)"
proof -
  have "\<And>x. x \<in> set (rows s) \<Longrightarrow> item_id x \<noteq> next_rowid s"
    using next_rowid_fresh by fastforce
  with that show ?thesis
    by (simp add: get_item_def find_snoc)
qed

lemma bindable_optional: "bindable (optional x)"
  by (cases x) (simp_all add: optional_def)

lemma add_item_typed:
  "add_item s t (VStr n) (optional d) (optional l) (VInt q) =
     (if in_range q
      then Inr (next_rowid s,
        s\<lparr>rows := rows s @
              [\<lparr>item_id = next_rowid s, name = VStr n, description = optional d,
                location = optional l, quantity = VInt q, date_added = t,
                last_modified = t\<rparr>],
          seq := next_rowid s\<rparr>)
      else Inl OverflowError)"
  by (simp add: add_item_def Let_def bindable_optional)

text \<open>
  C3. Take a call \<^verbatim>\<open>add_item(name, description, location, quantity)\<close> with a text for
  the name, a text or \<open>None\<close> for the description and the location, and an integer for
  the quantity. When it returns an id (a 64-bit integer, as every id of a table is),
  \<^verbatim>\<open>get_item\<close> on that id gives a row with the id and these four values, whose
  \<^verbatim>\<open>date_added\<close> and \<^verbatim>\<open>last_modified\<close> are equal. The call returns the next
  id of the table whenever the quantity is in the 64-bit range and the table has an id
  left to give, and raises \<^verbatim>\<open>OverflowError\<close> when the quantity is outside the range.
\<close>

theorem add_item_get_item:
  "(\<forall>i s'. add_item s t (VStr n) (optional d) (optional l) (VInt q) = Inr (i, s') \<and> in_range i \<longrightarrow>
      (\<exists>r. get_item s' i = Inr (Some r) \<and> item_id r = i \<and> name r = VStr n \<and>
           description r = optional d \<and> location r = optional l \<and> quantity r = VInt q \<and>
           date_added r = last_modified r)) \<and>
   (in_range q \<and> in_range (next_rowid s) \<longrightarrow>
      (\<exists>s'. add_item s t (VStr n) (optional d) (optional l) (VInt q) = Inr (next_rowid s, s'))) \<and>
   (\<not> in_range q \<longrightarrow>
      add_item s t (VStr n) (optional d) (optional l) (VInt q) = Inl OverflowError)"
proof (intro conjI allI impI)
  fix i s'
  assume a: "add_item s t (VStr n) (optional d) (optional l) (VInt q) = Inr (i, s') \<and> in_range i"
  let ?r = "\<lparr>item_id = next_rowid s, name = VStr n, description = optional d,
             location = optional l, quantity = VInt q, date_added = t, last_modified = t\<rparr>"
  from a have i: "i = next_rowid s" and s': "s' = s\<lparr>rows := rows s @ [?r], seq := next_rowid s\<rparr>"
    by (auto simp: add_item_typed split: if_splits)
  from a i have "get_item (s\<lparr>rows := rows s @ [?r], seq := next_rowid s\<rparr>) (next_rowid s)
      = Inr (Some ?r)"
    by (intro get_item_new) simp_all
  with i s' have "get_item s' i = Inr (Some ?r) \<and> item_id ?r = i \<and> name ?r = VStr n \<and>
           description ?r = optional d \<and> location ?r = optional l \<and> quantity ?r = VInt q \<and>
           date_added ?r = last_modified ?r"
    by simp
  then show "\<exists>r. get_item s' i = Inr (Some r) \<and> item_id r = i \<and> name r = VStr n \<and>
           description r = optional d \<and> location r = optional l \<and> quantity r = VInt q \<and>
           date_added r = last_modified r"
    by (rule exI)
next
  assume "in_range q \<and> in_range (next_rowid s)"
  then show "\<exists>s'. add_item s t (VStr n) (optional d) (optional l) (VInt q)
      = Inr (next_rowid s, s')"
    by (simp add: add_item_typed)
next
  assume "\<not> in_range q"
  then show "add_item s t (VStr n) (optional d) (optional l) (VInt q) = Inl OverflowError"
    by (simp add: add_item_typed)
qed

theorem add_item_get_item_witness:
  "in_range 3 \<and> in_range 1 \<and> next_rowid create_tables = 1 \<and>
   (\<exists>s' r. add_item create_tables ''2024-11-03T01:30:00'' (VStr ''Hammer'')
             (optional (Some ''Claw hammer'')) (optional (Some ''Shelf A'')) (VInt 3)
             = Inr (1, s') \<and>
           get_item s' 1 = Inr (Some r) \<and> item_id r = 1 \<and> name r = VStr ''Hammer'' \<and>
           description r = VStr ''Claw hammer'' \<and> location r = VStr ''Shelf A'' \<and>
           quantity r = VInt 3 \<and> date_added r = last_modified r) \<and>
   \<not> in_range 9223372036854775808 \<and>
   add_item create_tables ''2024-11-03T01:30:00'' (VStr ''Hammer'')
     (optional (Some ''Claw hammer'')) (optional (Some ''Shelf A'')) (VInt 9223372036854775808)
     = Inl OverflowError"
proof -
  have r: "in_range 3" "in_range 1" "\<not> in_range 9223372036854775808"
    by (simp_all add: in_range_def)
  have n: "next_rowid create_tables = 1"
    by (simp add: next_rowid_def create_tables_def)
  note th = add_item_get_item [of create_tables "''2024-11-03T01:30:00''" "''Hammer''"
      "Some ''Claw hammer''" "Some ''Shelf A''"]
  from th [of 3] r(1) r(2) n obtain s' where
    a: "add_item create_tables ''2024-11-03T01:30:00'' (VStr ''Hammer'')
             (optional (Some ''Claw hammer'')) (optional (Some ''Shelf A'')) (VInt 3)
             = Inr (1, s')"
    by auto
  with th [of 3] r(2) obtain r where
    "get_item s' 1 = Inr (Some r) \<and> item_id r = 1 \<and> name r = VStr ''Hammer'' \<and>
           description r = optional (Some ''Claw hammer'') \<and>
           location r = optional (Some ''Shelf A'') \<and>
           quantity r = VInt 3 \<and> date_added r = last_modified r"
    by blast
  then have "get_item s' 1 = Inr (Some r) \<and> item_id r = 1 \<and> name r = VStr ''Hammer'' \<and>
           description r = VStr ''Claw hammer'' \<and> location r = VStr ''Shelf A'' \<and>
           quantity r = VInt 3 \<and> date_added r = last_modified r"
    by (simp add: optional_def)
  with a have "\<exists>s' r. add_item create_tables ''2024-11-03T01:30:00'' (VStr ''Hammer'')
             (optional (Some ''Claw hammer'')) (optional (Some ''Shelf A'')) (VInt 3)
             = Inr (1, s') \<and>
           get_item s' 1 = Inr (Some r) \<and> item_id r = 1 \<and> name r = VStr ''Hammer'' \<and>
           description r = VStr ''Claw hammer'' \<and> location r = VStr ''Shelf A'' \<and>
           quantity r = VInt 3 \<and> date_added r = last_modified r"
    by blast
  moreover have "add_item create_tables ''2024-11-03T01:30:00'' (VStr ''Hammer'')
     (optional (Some ''Claw hammer'')) (optional (Some ''Shelf A'')) (VInt 9223372036854775808)
     = Inl OverflowError"
    using th [of 9223372036854775808] r(3) by blast
  ultimately show ?thesis using r n by (intro conjI)
qed

section \<open>\<^verbatim>\<open>delete_item\<close>\<close>

lemma find_filter_none: "find P (filter (\<lambda>x. \<not> P x) xs) = None"
  by (induction xs) auto

lemma delete_item_in_range:
  "in_range i \<Longrightarrow>
   delete_item s i =
     Inr (i \<in> set (map item_id (rows s)), s\<lparr>rows := filter (\<lambda>r. item_id r \<noteq> i) (rows s)\<rparr>)"
  by (auto simp: delete_item_def Let_def filter_empty_conv)

text \<open>
  C4, as the code has it. For an id in the 64-bit range, \<^verbatim>\<open>delete_item(id)\<close> returns
  \<open>True\<close> exactly when the table held a row with the id; after it no row has the id,
  \<^verbatim>\<open>get_item(id)\<close> gives \<open>None\<close>, and a second \<^verbatim>\<open>delete_item(id)\<close> returns
  \<open>False\<close> and changes nothing. For an id outside that range \<^verbatim>\<open>delete_item\<close> raises
  \<^verbatim>\<open>OverflowError\<close>.
\<close>

theorem delete_item_result:
  "(in_range i \<longrightarrow>
      (\<exists>s'. delete_item s i = Inr (i \<in> set (map item_id (rows s)), s') \<and>
            i \<notin> set (map item_id (rows s')) \<and>
            get_item s' i = Inr None \<and>
            delete_item s' i = Inr (False, s'))) \<and>
   (\<not> in_range i \<longrightarrow> delete_item s i = Inl OverflowError)"
proof (intro conjI impI)
  assume r: "in_range i"
  let ?s' = "s\<lparr>rows := filter (\<lambda>r. item_id r \<noteq> i) (rows s)\<rparr>"
  have 1: "delete_item s i = Inr (i \<in> set (map item_id (rows s)), ?s')"
    using r by (rule delete_item_in_range)
  have 2: "i \<notin> set (map item_id (rows ?s'))"
    by auto
  have 3: "get_item ?s' i = Inr None"
    using r find_filter_none [of "\<lambda>r. item_id r = i" "rows s"]
    by (simp add: get_item_def)
  have 4: "delete_item ?s' i = Inr (False, ?s')"
    using r 2 by (simp add: delete_item_in_range del: set_map)
  from 1 2 3 4 show "\<exists>s'. delete_item s i = Inr (i \<in> set (map item_id (rows s)), s') \<and>
            i \<notin> set (map item_id (rows s')) \<and>
            get_item s' i = Inr None \<and>
            delete_item s' i = Inr (False, s')"
    by blast
next
  assume "\<not> in_range i"
  then show "delete_item s i = Inl OverflowError"
    by (simp add: delete_item_def)
qed

theorem delete_item_result_witness:
  "in_range 1 \<and>
   (\<exists>s'. delete_item shelf 1 = Inr (True, s') \<and> rows s' = [] \<and>
         get_item s' 1 = Inr None \<and> delete_item s' 1 = Inr (False, s')) \<and>
   \<not> in_range 9223372036854775808 \<and>
   delete_item shelf 9223372036854775808 = Inl OverflowError"
proof -
  have r: "in_range 1" "\<not> in_range 9223372036854775808"
    by (simp_all add: in_range_def)
  have m: "1 \<in> set (map item_id (rows shelf))" by (simp add: shelf_def)
  from delete_item_result [of 1 shelf] r(1) m obtain s' where
    s': "delete_item shelf 1 = Inr (True, s')" "get_item s' 1 = Inr None"
      "delete_item s' 1 = Inr (False, s')"
    by auto
  from s'(1) have "rows s' = []"
    using r(1) by (auto simp: delete_item_in_range shelf_def)
  with s' have "\<exists>s'. delete_item shelf 1 = Inr (True, s') \<and> rows s' = [] \<and>
         get_item s' 1 = Inr None \<and> delete_item s' 1 = Inr (False, s')"
    by blast
  moreover have "delete_item shelf 9223372036854775808 = Inl OverflowError"
    using delete_item_result [of 9223372036854775808 shelf] r(2) by blast
  ultimately show ?thesis using r by (intro conjI)
qed

text \<open>
  C4 as the claim states it fails for an id that no 64-bit integer holds: no row has the
  id, and \<^verbatim>\<open>delete_item\<close> raises instead of returning \<open>False\<close>. (The command
  \<^verbatim>\<open>delete 9223372036854775808\<close> passes this id.)
\<close>

theorem delete_item_overflow_counterexample:
  "9223372036854775808 \<notin> set (map item_id (rows shelf)) \<and>
   delete_item shelf 9223372036854775808 = Inl OverflowError \<and>
   get_item shelf 9223372036854775808 = Inl OverflowError"
  by (simp add: delete_item_def get_item_def in_range_def shelf_def)

section \<open>What \<^verbatim>\<open>update_item\<close> and \<^verbatim>\<open>delete_item\<close> leave alone\<close>

lemma set_clause_frame:
  "item_id (set_clause u t r) = item_id r \<and> date_added (set_clause u t r) = date_added r"
  by (simp add: set_clause_def)

lemma filter_map_other:
  "filter (\<lambda>r. item_id r \<noteq> i) (map (\<lambda>r. if item_id r = i then set_clause u t r else r) xs)
   = filter (\<lambda>r. item_id r \<noteq> i) xs"
  by (induction xs) (auto simp: set_clause_frame)

lemma update_item_rows:
  assumes "update_item s t i kwargs = Inr (b, s')"
  shows "rows s' = rows s \<or>
         rows s' = map (\<lambda>r. if item_id r = i
                      then set_clause (filter (\<lambda>(k, v). k \<in> allowed_fields) kwargs) t r else r)
                    (rows s)"
proof -
  from assms have "s' = s \<or>
      s' = s\<lparr>rows := map (\<lambda>r. if item_id r = i
                 then set_clause (filter (\<lambda>(k, v). k \<in> allowed_fields) kwargs) t r else r)
               (rows s)\<rparr>"
    by (auto simp: update_item_def Let_def split: if_splits)
  then show ?thesis by auto
qed

lemma delete_item_rows:
  "delete_item s i = Inr (b, s') \<Longrightarrow> rows s' = filter (\<lambda>r. item_id r \<noteq> i) (rows s)"
  by (auto simp: delete_item_def Let_def split: if_splits)

text \<open>
  C9. A call \<^verbatim>\<open>update_item(id, ...)\<close> that returns leaves the rows with another id
  as they were, in their order, and changes no row's id and no row's
  \<^verbatim>\<open>date_added\<close>; a call \<^verbatim>\<open>delete_item(id)\<close> that returns leaves the rows with
  another id as they were. A call that raises changes nothing: whether the call of
  \<^verbatim>\<open>delete_item\<close> returns or raises, the rows with another id are afterwards as they
  were.
\<close>

theorem update_delete_frame:
  "(\<forall>b s'. update_item s t i kwargs = Inr (b, s') \<longrightarrow>
      filter (\<lambda>r. item_id r \<noteq> i) (rows s') = filter (\<lambda>r. item_id r \<noteq> i) (rows s) \<and>
      map item_id (rows s') = map item_id (rows s) \<and>
      map date_added (rows s') = map date_added (rows s)) \<and>
   (\<forall>b s'. delete_item s i = Inr (b, s') \<longrightarrow>
      filter (\<lambda>r. item_id r \<noteq> i) (rows s') = filter (\<lambda>r. item_id r \<noteq> i) (rows s)) \<and>
   filter (\<lambda>r. item_id r \<noteq> i) (rows (snd (perform s (t, Delete i))))
     = filter (\<lambda>r. item_id r \<noteq> i) (rows s)"
proof (intro conjI allI impI)
  fix b s'
  assume u: "update_item s t i kwargs = Inr (b, s')"
  note r = update_item_rows [OF u]
  from r show "filter (\<lambda>r. item_id r \<noteq> i) (rows s') = filter (\<lambda>r. item_id r \<noteq> i) (rows s)"
    by (auto simp: filter_map_other)
  from r show "map item_id (rows s') = map item_id (rows s)"
    by (auto simp: set_clause_frame)
  from r show "map date_added (rows s') = map date_added (rows s)"
    by (auto simp: set_clause_frame)
next
  fix b s'
  assume "delete_item s i = Inr (b, s')"
  then show "filter (\<lambda>r. item_id r \<noteq> i) (rows s') = filter (\<lambda>r. item_id r \<noteq> i) (rows s)"
    by (simp add: delete_item_rows)
next
  show "filter (\<lambda>r. item_id r \<noteq> i) (rows (snd (perform s (t, Delete i))))
     = filter (\<lambda>r. item_id r \<noteq> i) (rows s)"
    by (auto simp: delete_item_rows split: sum.splits)
qed

theorem update_delete_frame_witness:
  "(\<exists>s'. update_item toolbox ''2024-11-03T02:00:00'' 1 [(''quantity'', VInt 5)] = Inr (True, s') \<and>
     filter (\<lambda>r. item_id r \<noteq> 1) (rows s') = filter (\<lambda>r. item_id r \<noteq> 1) (rows toolbox) \<and>
     map item_id (rows s') = [1, 2] \<and>
     map date_added (rows s') = [''2024-11-03T01:30:00'', ''2024-11-03T01:40:00'']) \<and>
   (\<exists>s'. delete_item toolbox 1 = Inr (True, s') \<and>
     filter (\<lambda>r. item_id r \<noteq> 1) (rows s') = filter (\<lambda>r. item_id r \<noteq> 1) (rows toolbox))"
proof -
  obtain s' where u:
    "update_item toolbox ''2024-11-03T02:00:00'' 1 [(''quantity'', VInt 5)] = Inr (True, s')"
    by (simp add: update_item_def allowed_fields_def in_range_def)
  have "map item_id (rows toolbox) = [1, 2]"
    and "map date_added (rows toolbox) = [''2024-11-03T01:30:00'', ''2024-11-03T01:40:00'']"
    by (simp_all add: toolbox_def)
  moreover have "filter (\<lambda>r. item_id r \<noteq> 1) (rows s') = filter (\<lambda>r. item_id r \<noteq> 1) (rows toolbox) \<and>
      map item_id (rows s') = map item_id (rows toolbox) \<and>
      map date_added (rows s') = map date_added (rows toolbox)"
    using u update_delete_frame [of toolbox "''2024-11-03T02:00:00''" 1 "[(''quantity'', VInt 5)]"]
    by blast
  ultimately have 1: "\<exists>s'. update_item toolbox ''2024-11-03T02:00:00'' 1 [(''quantity'', VInt 5)]
       = Inr (True, s') \<and>
     filter (\<lambda>r. item_id r \<noteq> 1) (rows s') = filter (\<lambda>r. item_id r \<noteq> 1) (rows toolbox) \<and>
     map item_id (rows s') = [1, 2] \<and>
     map date_added (rows s') = [''2024-11-03T01:30:00'', ''2024-11-03T01:40:00'']"
    using u by auto
  obtain s'' where d: "delete_item toolbox 1 = Inr (True, s'')"
    by (simp add: delete_item_def toolbox_def in_range_def)
  then have "filter (\<lambda>r. item_id r \<noteq> 1) (rows s'') = filter (\<lambda>r. item_id r \<noteq> 1) (rows toolbox)"
    using update_delete_frame [of toolbox "''2024-11-03T02:00:00''" 1 "[(''quantity'', VInt 5)]"]
    by blast
  with d have 2: "\<exists>s'. delete_item toolbox 1 = Inr (True, s') \<and>
     filter (\<lambda>r. item_id r \<noteq> 1) (rows s') = filter (\<lambda>r. item_id r \<noteq> 1) (rows toolbox)"
    by blast
  from 1 2 show ?thesis by (rule conjI)
qed

section \<open>The ids \<^verbatim>\<open>add_item\<close> returns\<close>

lemma next_rowid_wf:
  "\<forall>r\<in>set (rows s). item_id r \<le> seq s \<Longrightarrow> next_rowid s = seq s + 1"
proof -
  assume wf: "\<forall>r\<in>set (rows s). item_id r \<le> seq s"
  have "\<And>a. \<forall>x\<in>set xs. x \<le> a \<Longrightarrow> fold max xs a = a" for xs :: "int list"
    by (induction xs) (auto simp: max_def)
  with wf have "fold max (map item_id (rows s)) (seq s) = seq s" by simp
  then show ?thesis by (simp add: next_rowid_def)
qed

lemma perform_seq:
  assumes "\<forall>r\<in>set (rows s). item_id r \<le> seq s"
  shows "(\<forall>r\<in>set (rows (snd (perform s c))). item_id r \<le> seq (snd (perform s c))) \<and>
         seq s \<le> seq (snd (perform s c)) \<and>
         (\<forall>i\<in>set (fst (perform s c)). seq s < i \<and> i \<le> seq (snd (perform s c)))"
proof (cases c)
  case (Pair t call)
  show ?thesis
  proof (cases call)
    case (Add nm descr loc qty)
    with Pair assms show ?thesis
      by (auto simp: add_item_def Let_def next_rowid_wf)
  next
    case (Update i kwargs)
    with Pair assms show ?thesis
      by (auto simp: update_item_def Let_def set_clause_def)
  next
    case (Delete i)
    with Pair assms show ?thesis
      by (auto simp: delete_item_def Let_def)
  qed
qed

lemma run_ids:
  "\<forall>r\<in>set (rows s). item_id r \<le> seq s \<Longrightarrow>
   sorted_wrt (<) (fst (run s calls)) \<and> (\<forall>i\<in>set (fst (run s calls)). seq s < i)"
proof (induction calls arbitrary: s)
  case Nil
  then show ?case by simp
next
  case (Cons c cs)
  let ?s' = "snd (perform s c)"
  note p = perform_seq [OF Cons.prems, of c]
  from p have wf': "\<forall>r\<in>set (rows ?s'). item_id r \<le> seq ?s'" by blast
  note ih = Cons.IH [OF wf']
  have run: "fst (run s (c # cs)) = fst (perform s c) @ fst (run ?s' cs)"
    by (simp add: case_prod_beta Let_def)
  have one: "sorted_wrt (<) (fst (perform s c))"
    by (cases c, cases "snd c") (auto split: sum.splits)
  have "\<forall>x\<in>set (fst (perform s c)). \<forall>y\<in>set (fst (run ?s' cs)). x < y"
    using p ih by fastforce
  with one ih have "sorted_wrt (<) (fst (perform s c) @ fst (run ?s' cs))"
    by (simp add: sorted_wrt_append)
  then have "sorted_wrt (<) (fst (run s (c # cs)))"
    by (simp only: run)
  moreover have "\<forall>i\<in>set (fst (perform s c) @ fst (run ?s' cs)). seq s < i"
    using p ih by fastforce
  then have "\<forall>i\<in>set (fst (run s (c # cs))). seq s < i"
    by (simp only: run)
  ultimately show ?case by blast
qed

text \<open>
  C7. In a table where no id is above the \<^verbatim>\<open>AUTOINCREMENT\<close> counter (a new table
  is one, and every call keeps it so), take any sequence of calls of \<^verbatim>\<open>add_item\<close>,
  \<^verbatim>\<open>update_item\<close> and \<^verbatim>\<open>delete_item\<close>. The ids that the calls of
  \<^verbatim>\<open>add_item\<close> return, in the order of the calls, are strictly increasing, so no two
  are equal and none is returned again after its row is deleted; each is above the counter
  at the start and is the id of no row the table held at the start.
\<close>

theorem add_item_ids_increasing:
  assumes "\<forall>r\<in>set (rows s). item_id r \<le> seq s"
  shows "sorted_wrt (<) (fst (run s calls)) \<and>
         (\<forall>i\<in>set (fst (run s calls)). seq s < i \<and> i \<notin> set (map item_id (rows s)))"
  using run_ids [OF assms, of calls] assms by fastforce

theorem add_item_ids_increasing_witness:
  "rows create_tables = [] \<and>
   fst (run create_tables
     [(''2024-11-03T01:30:00'', Add (VStr ''Hammer'') (VStr ''Claw hammer'') (VStr ''Shelf A'') (VInt 3)),
      (''2024-11-03T01:35:00'', Delete 1),
      (''2024-11-03T01:40:00'', Add (VStr ''Saw'') VNone (VStr ''Shelf B'') (VInt 1))]) = [1, 2] \<and>
   sorted_wrt (<) [1, 2 :: int]"
proof -
  have wf: "\<forall>r\<in>set (rows create_tables). item_id r \<le> seq create_tables"
    by (simp add: create_tables_def)
  have ids: "fst (run create_tables
     [(''2024-11-03T01:30:00'', Add (VStr ''Hammer'') (VStr ''Claw hammer'') (VStr ''Shelf A'') (VInt 3)),
      (''2024-11-03T01:35:00'', Delete 1),
      (''2024-11-03T01:40:00'', Add (VStr ''Saw'') VNone (VStr ''Shelf B'') (VInt 1))]) = [1, 2]"
    by code_simp
  from add_item_ids_increasing [OF wf, of
     "[(''2024-11-03T01:30:00'', Add (VStr ''Hammer'') (VStr ''Claw hammer'') (VStr ''Shelf A'') (VInt 3)),
      (''2024-11-03T01:35:00'', Delete 1),
      (''2024-11-03T01:40:00'', Add (VStr ''Saw'') VNone (VStr ''Shelf B'') (VInt 1))]"]
  have "sorted_wrt (<) [1, 2 :: int]" unfolding ids by blast
  moreover have "rows create_tables = []" by (simp add: create_tables_def)
  ultimately show ?thesis using ids by blast
qed

section \<open>The two timestamps\<close>

lemma perform_dates:
  assumes "\<forall>r\<in>set (rows s). date_added r \<le> last_modified r"
    and "\<forall>r\<in>set (rows s). date_added r \<le> t"
  shows "(\<forall>r\<in>set (rows (snd (perform s (t, c)))). date_added r \<le> last_modified r) \<and>
         (\<forall>r\<in>set (rows (snd (perform s (t, c)))). date_added r \<le> t)"
proof (cases c)
  case (Add nm descr loc qty)
  with assms show ?thesis
    by (auto simp: add_item_def Let_def)
next
  case (Update i kwargs)
  with assms show ?thesis
    by (auto simp: update_item_def Let_def set_clause_def)
next
  case (Delete i)
  with assms show ?thesis
    by (auto simp: delete_item_def Let_def)
qed

lemma run_Cons: "snd (run s (c # cs)) = snd (run (snd (perform s c)) cs)"
  by (simp add: case_prod_beta Let_def)

lemma run_dates:
  "\<forall>r\<in>set (rows s). date_added r \<le> last_modified r \<Longrightarrow>
   \<forall>r\<in>set (rows s). \<forall>c\<in>set calls. date_added r \<le> fst c \<Longrightarrow>
   sorted (map fst calls) \<Longrightarrow>
   \<forall>r\<in>set (rows (snd (run s calls))). date_added r \<le> last_modified r"
proof (induction calls arbitrary: s)
  case Nil
  then show ?case by simp
next
  case (Cons c cs)
  obtain t call where c: "c = (t, call)" by (cases c)
  let ?s' = "snd (perform s c)"
  have now: "\<forall>r\<in>set (rows s). date_added r \<le> t"
    using Cons.prems(2) c by auto
  note p = perform_dates [OF Cons.prems(1) now, of call]
  have later: "\<forall>c'\<in>set cs. t \<le> fst c'"
    using Cons.prems(3) c by auto
  have 1: "\<forall>r\<in>set (rows ?s'). date_added r \<le> last_modified r"
    using p c by simp
  have 2: "\<forall>r\<in>set (rows ?s'). \<forall>c'\<in>set cs. date_added r \<le> fst c'"
    using p c later by fastforce
  have 3: "sorted (map fst cs)"
    using Cons.prems(3) by simp
  from Cons.IH [OF 1 2 3] show ?case
    by (simp only: run_Cons)
qed

text \<open>
  C5, as the code has it. Take a table in which every item's \<^verbatim>\<open>last_modified\<close> is at
  least its \<^verbatim>\<open>date_added\<close>, and a sequence of calls of \<^verbatim>\<open>add_item\<close>,
  \<^verbatim>\<open>update_item\<close> and \<^verbatim>\<open>delete_item\<close> during which the clock never runs
  backwards: its readings at the calls are in order, and none is before the
  \<^verbatim>\<open>date_added\<close> of an item the table held at the start. Then every item in the table
  after the calls has \<^verbatim>\<open>last_modified\<close> at least \<^verbatim>\<open>date_added\<close>.
\<close>

theorem last_modified_ge_date_added:
  assumes "\<forall>r\<in>set (rows s). date_added r \<le> last_modified r"
    and "\<forall>r\<in>set (rows s). \<forall>c\<in>set calls. date_added r \<le> fst c"
    and "sorted (map fst calls)"
  shows "\<forall>r\<in>set (rows (snd (run s calls))). date_added r \<le> last_modified r"
  using assms by (rule run_dates)

theorem last_modified_ge_date_added_witness:
  "sorted (map fst
     [(''2024-11-03T01:30:00'', Add (VStr ''Hammer'') (VStr ''Claw hammer'') (VStr ''Shelf A'') (VInt 3)),
      (''2024-11-03T01:50:00'', Update 1 [(''quantity'', VInt 5)])]) \<and>
   map (\<lambda>r. (date_added r, last_modified r)) (rows (snd (run create_tables
     [(''2024-11-03T01:30:00'', Add (VStr ''Hammer'') (VStr ''Claw hammer'') (VStr ''Shelf A'') (VInt 3)),
      (''2024-11-03T01:50:00'', Update 1 [(''quantity'', VInt 5)])])))
     = [(''2024-11-03T01:30:00'', ''2024-11-03T01:50:00'')] \<and>
   (''2024-11-03T01:30:00'' :: string) \<le> ''2024-11-03T01:50:00''"
proof -
  let ?calls = "[(''2024-11-03T01:30:00'', Add (VStr ''Hammer'') (VStr ''Claw hammer'') (VStr ''Shelf A'') (VInt 3)),
      (''2024-11-03T01:50:00'', Update 1 [(''quantity'', VInt 5)])]"
  have 1: "\<forall>r\<in>set (rows create_tables). date_added r \<le> last_modified r"
    and 2: "\<forall>r\<in>set (rows create_tables). \<forall>c\<in>set ?calls. date_added r \<le> fst c"
    by (simp_all add: create_tables_def)
  have 3: "sorted (map fst ?calls)" by simp
  have 4: "map (\<lambda>r. (date_added r, last_modified r)) (rows (snd (run create_tables ?calls)))
     = [(''2024-11-03T01:30:00'', ''2024-11-03T01:50:00'')]"
    by code_simp
  from last_modified_ge_date_added [OF 1 2 3]
  have "\<forall>p\<in>set (map (\<lambda>r. (date_added r, last_modified r)) (rows (snd (run create_tables ?calls)))).
          fst p \<le> snd p"
    by simp
  then have "(''2024-11-03T01:30:00'' :: string) \<le> ''2024-11-03T01:50:00''"
    unfolding 4 by simp
  with 3 4 show ?thesis by blast
qed

text \<open>
  C5 as the claim states it fails: \<^verbatim>\<open>datetime.now()\<close> is the local wall clock, and
  \<^verbatim>\<open>update_item\<close> stores its reading whatever the row holds. An item added at 01:30
  and updated forty minutes later, after the clock was set back by an hour at 02:00, has
  \<^verbatim>\<open>last_modified\<close> 01:10, before its \<^verbatim>\<open>date_added\<close>.
\<close>

theorem last_modified_before_date_added_counterexample:
  "map (\<lambda>r. (date_added r, last_modified r)) (rows (snd (run create_tables
     [(''2024-11-03T01:30:00'', Add (VStr ''Hammer'') (VStr ''Claw hammer'') (VStr ''Shelf A'') (VInt 3)),
      (''2024-11-03T01:10:00'', Update 1 [(''quantity'', VInt 5)])])))
     = [(''2024-11-03T01:30:00'', ''2024-11-03T01:10:00'')] \<and>
   \<not> (''2024-11-03T01:30:00'' :: string) \<le> ''2024-11-03T01:10:00''"
  by code_simp

section \<open>\<^verbatim>\<open>update_item\<close> on the quantity\<close>

lemma find_Some_id: "find (\<lambda>r. item_id r = i) xs = Some r \<Longrightarrow> item_id r = i"
  by (induction xs) (auto split: if_splits)

lemma find_map_update:
  "find (\<lambda>r. item_id r = i) xs = Some r \<Longrightarrow> item_id (f r) = i \<Longrightarrow>
   find (\<lambda>r. item_id r = i) (map (\<lambda>r. if item_id r = i then f r else r) xs) = Some (f r)"
  by (induction xs) (auto split: if_splits)

text \<open>
  C6, as the code has it. For the id of an item in the table,
  \<^verbatim>\<open>update_item(id, quantity=5)\<close> returns \<open>True\<close>, and \<^verbatim>\<open>get_item(id)\<close> then
  gives a row with quantity 5 whose \<^verbatim>\<open>last_modified\<close> is the reading of the clock at
  the update: it is strictly greater than the value before exactly when that reading is.
\<close>

theorem update_quantity:
  assumes "get_item s i = Inr (Some r)"
  shows "\<exists>s' r'. update_item s t i [(''quantity'', VInt 5)] = Inr (True, s') \<and>
           get_item s' i = Inr (Some r') \<and> quantity r' = VInt 5 \<and> last_modified r' = t \<and>
           (last_modified r < last_modified r') = (last_modified r < t)"
proof -
  let ?u = "[(''quantity'', VInt 5)]"
  let ?s' = "s\<lparr>rows := map (\<lambda>r. if item_id r = i then set_clause ?u t r else r) (rows s)\<rparr>"
  have f: "filter (\<lambda>(k, v). k \<in> allowed_fields) ?u = ?u"
    by (simp add: allowed_fields_def)
  from assms have i: "in_range i" and g0: "find (\<lambda>r. item_id r = i) (rows s) = Some r"
    by (auto simp: get_item_def split: if_splits)
  have u: "update_item s t i ?u = Inr (True, ?s')"
    unfolding update_item_def Let_def f using i by (simp add: in_range_def)
  have "item_id (set_clause ?u t r) = i"
    using g0 by (auto simp: set_clause_def dest: find_Some_id)
  with g0 i have g: "get_item ?s' i = Inr (Some (set_clause ?u t r))"
    by (simp add: get_item_def find_map_update)
  have "quantity (set_clause ?u t r) = VInt 5" "last_modified (set_clause ?u t r) = t"
    by (simp_all add: set_clause_def)
  with u g show ?thesis by auto
qed

theorem update_quantity_witness:
  "get_item shelf 1 = Inr (Some (hd (rows shelf))) \<and>
   (\<exists>s' r'. update_item shelf ''2024-11-03T01:50:00'' 1 [(''quantity'', VInt 5)] = Inr (True, s') \<and>
      get_item s' 1 = Inr (Some r') \<and> quantity r' = VInt 5 \<and>
      last_modified r' = ''2024-11-03T01:50:00'') \<and>
   last_modified (hd (rows shelf)) < ''2024-11-03T01:50:00''"
proof -
  have g: "get_item shelf 1 = Inr (Some (hd (rows shelf)))"
    by (simp add: get_item_def shelf_def in_range_def)
  have l: "last_modified (hd (rows shelf)) < ''2024-11-03T01:50:00''"
    by (simp add: shelf_def)
  from update_quantity [OF g, of "''2024-11-03T01:50:00''"] g l show ?thesis by blast
qed

text \<open>
  C6 as the claim states it fails when the clock does not advance between the two
  writes: the hammer, last modified at 01:30, is updated when the clock, set back, reads
  01:10, and its \<^verbatim>\<open>last_modified\<close> is then not greater than before.
\<close>

theorem update_quantity_clock_back_counterexample:
  "get_item shelf 1 = Inr (Some (hd (rows shelf))) \<and>
   last_modified (hd (rows shelf)) = ''2024-11-03T01:30:00'' \<and>
   (\<exists>s'. update_item shelf ''2024-11-03T01:10:00'' 1 [(''quantity'', VInt 5)] = Inr (True, s') \<and>
      map last_modified (rows s') = [''2024-11-03T01:10:00'']) \<and>
   \<not> (''2024-11-03T01:30:00'' :: string) < ''2024-11-03T01:10:00''"
  by (simp add: get_item_def shelf_def update_item_def allowed_fields_def set_clause_def
      in_range_def)

section \<open>\<^verbatim>\<open>do_add\<close>: the words of the line and the quantity\<close>

lemma tokens_Nil: "dropWhile isspace s = [] \<Longrightarrow> tokens s = []"
  by (subst tokens.simps) simp

lemma tokens_Cons:
  "dropWhile isspace s \<noteq> [] \<Longrightarrow>
   tokens s = takeWhile (\<lambda>c. \<not> isspace c) (dropWhile isspace s)
              # tokens (dropWhile (\<lambda>c. \<not> isspace c) (dropWhile isspace s))"
  by (subst tokens.simps) (simp add: Let_def)

lemma tokens_empty_iff: "tokens s = [] \<longleftrightarrow> dropWhile isspace s = []"
  by (cases "dropWhile isspace s = []") (simp_all add: tokens_Nil tokens_Cons)

lemma dropWhile_isspace_empty: "dropWhile isspace s = [] \<longleftrightarrow> list_all isspace s"
  by (simp add: dropWhile_eq_Nil_conv list_all_iff)

lemma tokens_dropWhile: "tokens (dropWhile isspace s) = tokens s"
proof (cases "dropWhile isspace s = []")
  case True
  then show ?thesis by (simp add: tokens_Nil)
next
  case False
  then have "dropWhile isspace (dropWhile isspace s) \<noteq> []"
    by (simp add: dropWhile_idem)
  then show ?thesis
    using False by (simp add: tokens_Cons dropWhile_idem)
qed

lemma remainder_Nil: "remainder n [] = []"
  by (induction n) auto

lemma split_maxsplit_tokens:
  "split_maxsplit n s =
     take n (tokens s) @ (if remainder n s = [] then [] else [remainder n s])"
proof (induction n arbitrary: s)
  case 0
  then show ?case by (simp add: Let_def)
next
  case (Suc n)
  show ?case
  proof (cases "dropWhile isspace s = []")
    case True
    then show ?thesis
      by (simp add: tokens_Nil remainder_Nil del: dropWhile_eq_Nil_conv)
  next
    case False
    then show ?thesis
      by (simp add: Let_def tokens_Cons Suc del: dropWhile_eq_Nil_conv)
  qed
qed

lemma tokens_remainder: "tokens (remainder n s) = drop n (tokens s)"
proof (induction n arbitrary: s)
  case 0
  then show ?case by (simp add: tokens_dropWhile)
next
  case (Suc n)
  show ?case
  proof (cases "dropWhile isspace s = []")
    case True
    then show ?thesis
      by (simp add: tokens_Nil remainder_Nil del: dropWhile_eq_Nil_conv)
  next
    case False
    then show ?thesis
      by (simp add: tokens_Cons Suc del: dropWhile_eq_Nil_conv)
  qed
qed

lemma remainder_suffix: "suffix (remainder n s) s"
proof (induction n arbitrary: s)
  case 0
  then show ?case by (simp add: suffix_dropWhile)
next
  case (Suc n)
  have "suffix (remainder (Suc n) s) (dropWhile (\<lambda>c. \<not> isspace c) (dropWhile isspace s))"
    using Suc by simp
  also have "suffix \<dots> (dropWhile isspace s)" by (rule suffix_dropWhile)
  also have "suffix \<dots> s" by (rule suffix_dropWhile)
  finally show ?case .
qed

lemma remainder_idem: "dropWhile isspace (remainder n s) = remainder n s"
  by (induction n arbitrary: s) (simp_all add: dropWhile_idem)

lemma remainder_empty_iff: "remainder n s = [] \<longleftrightarrow> length (tokens s) \<le> n"
proof -
  have "remainder n s = [] \<longleftrightarrow> tokens (remainder n s) = []"
    by (simp add: tokens_empty_iff remainder_idem)
  then show ?thesis by (simp add: tokens_remainder)
qed

lemma tokens_nospace:
  assumes "\<forall>c\<in>set b. \<not> isspace c" and "\<forall>c\<in>set w. isspace c"
  shows "tokens (b @ w) = (if b = [] then [] else [b])"
proof (cases b)
  case Nil
  with assms show ?thesis
    by (simp add: tokens_empty_iff dropWhile_eq_Nil_conv)
next
  case (Cons x xs)
  with assms have 1: "dropWhile isspace (b @ w) = b @ w" by simp
  have 2: "takeWhile (\<lambda>c. \<not> isspace c) (b @ w) = b"
    using assms by (cases w) simp_all
  have 3: "dropWhile (\<lambda>c. \<not> isspace c) (b @ w) = w"
    using assms by (cases w) simp_all
  have 4: "tokens w = []"
    using assms by (simp add: tokens_empty_iff dropWhile_eq_Nil_conv)
  from Cons have "dropWhile isspace (b @ w) \<noteq> []" using 1 by simp
  then show ?thesis using Cons 1 2 3 4 by (simp add: tokens_Cons)
qed

lemma tokens_space_prefix:
  assumes "\<forall>c\<in>set w. isspace c"
  shows "tokens (w @ s) = tokens s"
proof -
  from assms have "dropWhile isspace (w @ s) = dropWhile isspace s"
    by (simp add: dropWhile_append2)
  then have "tokens (dropWhile isspace (w @ s)) = tokens (dropWhile isspace s)"
    by simp
  then show ?thesis by (simp only: tokens_dropWhile)
qed

lemma int_isspace_isspace: "int_isspace c \<Longrightarrow> isspace c"
  by (auto simp: int_isspace_def isspace_def Let_def)

lemma int_strip_decomp:
  "s = takeWhile int_isspace s @ int_strip s
         @ rev (takeWhile int_isspace (rev (dropWhile int_isspace s)))"
proof -
  let ?r = "dropWhile int_isspace s"
  have "rev (takeWhile int_isspace (rev ?r) @ dropWhile int_isspace (rev ?r)) = rev (rev ?r)"
    by (simp only: takeWhile_dropWhile_id)
  then have "rev (dropWhile int_isspace (rev ?r)) @ rev (takeWhile int_isspace (rev ?r)) = ?r"
    by (simp only: rev_append rev_rev_ident)
  then have "int_strip s @ rev (takeWhile int_isspace (rev ?r)) = ?r"
    by (simp only: int_strip_def)
  then have "takeWhile int_isspace s @ int_strip s @ rev (takeWhile int_isspace (rev ?r))
      = takeWhile int_isspace s @ ?r"
    by (simp only:)
  then show ?thesis by (simp only: takeWhile_dropWhile_id)
qed

lemma isdigit_not_isspace: "isdigit c \<Longrightarrow> \<not> isspace c"
  by (simp add: isdigit_def isspace_def Let_def)

lemma digits_ok_chars: "digits_ok cs \<Longrightarrow> \<forall>c\<in>set cs. isdigit c \<or> c = CHR ''_''"
  by (induction cs rule: digits_ok.induct) (auto split: if_splits)

lemma digits_ok_nospace: "digits_ok cs \<Longrightarrow> \<forall>c\<in>set cs. \<not> isspace c"
proof
  fix c assume "digits_ok cs" "c \<in> set cs"
  then have "isdigit c \<or> c = CHR ''_''" using digits_ok_chars by blast
  moreover have "\<not> isspace CHR ''_''" by (simp add: isspace_def)
  ultimately show "\<not> isspace c" using isdigit_not_isspace by blast
qed

lemma int_of_digits_ok: "int_of_digits cs = Some n \<Longrightarrow> digits_ok cs"
  by (simp add: int_of_digits_def split: if_splits)

lemma int_of_str_nospace:
  assumes "int_of_str s = Some n"
  shows "\<forall>c\<in>set (int_strip s). \<not> isspace c"
proof (cases "int_strip s")
  case Nil
  then show ?thesis by simp
next
  case (Cons c cs)
  have sign: "\<not> isspace CHR ''-''" "\<not> isspace CHR ''+''"
    by (simp_all add: isspace_def)
  from assms Cons consider "c = CHR ''-''" "digits_ok cs" | "c = CHR ''+''" "digits_ok cs"
    | "digits_ok (c # cs)"
    by (auto simp: int_of_str_def dest: int_of_digits_ok split: if_splits)
  then show ?thesis
  proof cases
    case 1
    then show ?thesis using Cons sign digits_ok_nospace [of cs] by auto
  next
    case 2
    then show ?thesis using Cons sign digits_ok_nospace [of cs] by auto
  next
    case 3
    then show ?thesis using Cons digits_ok_nospace [of "c # cs"] by simp
  qed
qed

lemma int_of_str_tokens:
  assumes "int_of_str s = Some n"
  shows "length (tokens s) \<le> 1"
proof -
  let ?w = "rev (takeWhile int_isspace (rev (dropWhile int_isspace s)))"
  have l: "\<forall>c\<in>set (takeWhile int_isspace s). isspace c"
    by (auto dest: set_takeWhileD int_isspace_isspace)
  have w: "\<forall>c\<in>set ?w. isspace c"
    by (auto dest: set_takeWhileD int_isspace_isspace)
  have b: "\<forall>c\<in>set (int_strip s). \<not> isspace c"
    using assms by (rule int_of_str_nospace)
  have "tokens s = tokens (takeWhile int_isspace s @ (int_strip s @ ?w))"
    using int_strip_decomp [of s] by simp
  also have "\<dots> = tokens (int_strip s @ ?w)"
    using l by (rule tokens_space_prefix)
  also have "\<dots> = (if int_strip s = [] then [] else [int_strip s])"
    using b w by (rule tokens_nospace)
  finally show ?thesis by simp
qed

lemma tokens_two_space:
  assumes "1 < length (tokens s)"
  shows "\<exists>c\<in>set s. isspace c"
proof (rule ccontr)
  assume "\<not> (\<exists>c\<in>set s. isspace c)"
  then have "\<forall>c\<in>set s. \<not> isspace c" by blast
  then have "tokens (s @ []) = (if s = [] then [] else [s])"
    by (rule tokens_nospace) simp
  then have "length (tokens s) \<le> 1" by simp
  with assms show False by simp
qed

lemma split_maxsplit_empty_iff: "split_maxsplit n s = [] \<longleftrightarrow> list_all isspace s"
proof -
  have "split_maxsplit n s = [] \<longleftrightarrow> dropWhile isspace s = []"
    by (cases n) (simp_all add: Let_def del: dropWhile_eq_Nil_conv)
  then show ?thesis by (simp only: dropWhile_isspace_empty)
qed

lemma strip_blank:
  assumes "strip s = s" and "list_all isspace s"
  shows "s = []"
proof -
  from assms(2) have "dropWhile isspace s = []" by (simp only: dropWhile_isspace_empty)
  then have "strip s = []" by (simp add: strip_def del: dropWhile_eq_Nil_conv)
  with assms(1) show ?thesis by simp
qed

lemma in_range_1: "in_range 1"
  by (simp add: in_range_def)

lemma add_item_words:
  "add_item s t (VStr n) (if a then VStr d else VNone) (if b then VStr l else VNone) (VInt q) =
     (if in_range q
      then Inr (next_rowid s,
        s\<lparr>rows := rows s @
              [\<lparr>item_id = next_rowid s, name = VStr n,
                description = (if a then VStr d else VNone),
                location = (if b then VStr l else VNone),
                quantity = VInt q, date_added = t, last_modified = t\<rparr>],
          seq := next_rowid s\<rparr>)
      else Inl OverflowError)"
  by (simp add: add_item_def Let_def)

lemma do_add_words:
  assumes "split_maxsplit 3 arg \<noteq> []"
  shows "do_add s t arg =
     (let args = split_maxsplit 3 arg;
          q = (if 3 < length args
               then (case int_of_str (args ! 3) of None \<Rightarrow> 1 | Some n \<Rightarrow> n) else 1)
      in case add_item s t (VStr (args ! 0))
                (if 1 < length args then VStr (args ! 1) else VNone)
                (if 2 < length args then VStr (args ! 2) else VNone) (VInt q) of
           Inl e \<Rightarrow> Inl e
         | Inr (i, s') \<Rightarrow> Inr (Added_item_with_ID i, s'))"
proof (cases "3 < length (split_maxsplit 3 arg)")
  case True
  show ?thesis
  proof (cases "int_of_str (split_maxsplit 3 arg ! 3)")
    case None
    with True assms show ?thesis
      unfolding do_add_def Let_def by simp
  next
    case (Some n)
    with True assms show ?thesis
      unfolding do_add_def Let_def by simp
  qed
next
  case False
  with assms show ?thesis
    unfolding do_add_def Let_def by simp
qed

text \<open>
  C8, as the code has it. When the line has no word (it is empty or holds only
  whitespace), \<^verbatim>\<open>do_add\<close> reports that the name is required and writes nothing.
  When \<^verbatim>\<open>int\<close> reads from the fourth element of \<^verbatim>\<open>arg.split(maxsplit=3)\<close> an
  integer outside the 64-bit range, \<^verbatim>\<open>do_add\<close> raises \<^verbatim>\<open>OverflowError\<close> and adds
  nothing. Otherwise, in a table that has an id left to give, it adds an item, named by
  the first word, with the next id; its quantity is the integer that \<^verbatim>\<open>int\<close> reads
  from the fourth element when there is one and \<^verbatim>\<open>int\<close> accepts it, and 1 when there
  is none or \<^verbatim>\<open>int\<close> rejects it. A line with no whitespace at its ends (as the
  command loop passes it) has no word only when it is empty.
\<close>

theorem do_add_result:
  "(list_all isspace arg \<longrightarrow> do_add s t arg = Inr (Error_item_name_required, s)) \<and>
   (\<forall>n. 3 < length (split_maxsplit 3 arg) \<and>
        int_of_str (split_maxsplit 3 arg ! 3) = Some n \<and> \<not> in_range n \<longrightarrow>
        do_add s t arg = Inl OverflowError) \<and>
   (\<not> list_all isspace arg \<and> in_range (next_rowid s) \<and>
    (\<forall>n. 3 < length (split_maxsplit 3 arg) \<and>
         int_of_str (split_maxsplit 3 arg ! 3) = Some n \<longrightarrow> in_range n) \<longrightarrow>
      (\<exists>r. do_add s t arg =
              Inr (Added_item_with_ID (next_rowid s),
                   s\<lparr>rows := rows s @ [r], seq := next_rowid s\<rparr>) \<and>
           item_id r = next_rowid s \<and>
           name r = VStr (hd (split_maxsplit 3 arg)) \<and>
           (\<forall>n. 3 < length (split_maxsplit 3 arg) \<and>
                int_of_str (split_maxsplit 3 arg ! 3) = Some n \<longrightarrow> quantity r = VInt n) \<and>
           (length (split_maxsplit 3 arg) \<le> 3 \<or> int_of_str (split_maxsplit 3 arg ! 3) = None
              \<longrightarrow> quantity r = VInt 1))) \<and>
   (strip arg = arg \<longrightarrow> list_all isspace arg = (arg = []))"
proof (intro conjI impI allI)
  assume "list_all isspace arg"
  then have "split_maxsplit 3 arg = []" by (simp only: split_maxsplit_empty_iff)
  then show "do_add s t arg = Inr (Error_item_name_required, s)"
    by (simp add: do_add_def)
next
  fix n
  let ?args = "split_maxsplit 3 arg"
  assume a: "3 < length ?args \<and> int_of_str (?args ! 3) = Some n \<and> \<not> in_range n"
  then have "?args \<noteq> []" by auto
  then show "do_add s t arg = Inl OverflowError"
    using a by (simp add: do_add_words Let_def add_item_words)
next
  let ?args = "split_maxsplit 3 arg"
  assume a: "\<not> list_all isspace arg \<and> in_range (next_rowid s) \<and>
    (\<forall>n. 3 < length ?args \<and> int_of_str (?args ! 3) = Some n \<longrightarrow> in_range n)"
  then have ne: "?args \<noteq> []" by (simp add: split_maxsplit_empty_iff)
  from ne have hd: "?args ! 0 = hd ?args" by (cases ?args) auto
  define q where "q = (if 3 < length ?args
      then (case int_of_str (?args ! 3) of None \<Rightarrow> 1 | Some n \<Rightarrow> n) else 1)"
  have iq: "in_range q"
  proof (cases "3 < length ?args")
    case True
    then show ?thesis
      using a by (cases "int_of_str (?args ! 3)") (simp_all add: q_def in_range_1)
  next
    case False
    then show ?thesis by (simp add: q_def in_range_1)
  qed
  define r where "r = \<lparr>item_id = next_rowid s, name = VStr (hd ?args),
      description = (if 1 < length ?args then VStr (?args ! 1) else VNone),
      location = (if 2 < length ?args then VStr (?args ! 2) else VNone),
      quantity = VInt q, date_added = t, last_modified = t\<rparr>"
  have "do_add s t arg =
      Inr (Added_item_with_ID (next_rowid s), s\<lparr>rows := rows s @ [r], seq := next_rowid s\<rparr>)"
    using iq unfolding do_add_words [OF ne] Let_def add_item_words q_def [symmetric] hd r_def
    by simp
  moreover have "item_id r = next_rowid s" "name r = VStr (hd ?args)"
    by (simp_all add: r_def)
  moreover have "\<forall>n. 3 < length ?args \<and> int_of_str (?args ! 3) = Some n \<longrightarrow> quantity r = VInt n"
    by (simp add: r_def q_def)
  moreover have "length ?args \<le> 3 \<or> int_of_str (?args ! 3) = None \<longrightarrow> quantity r = VInt 1"
    by (auto simp: r_def q_def)
  ultimately have "do_add s t arg =
              Inr (Added_item_with_ID (next_rowid s),
                   s\<lparr>rows := rows s @ [r], seq := next_rowid s\<rparr>) \<and>
           item_id r = next_rowid s \<and>
           name r = VStr (hd ?args) \<and>
           (\<forall>n. 3 < length ?args \<and> int_of_str (?args ! 3) = Some n \<longrightarrow> quantity r = VInt n) \<and>
           (length ?args \<le> 3 \<or> int_of_str (?args ! 3) = None \<longrightarrow> quantity r = VInt 1)"
    by (intro conjI)
  then show "\<exists>r. do_add s t arg =
              Inr (Added_item_with_ID (next_rowid s),
                   s\<lparr>rows := rows s @ [r], seq := next_rowid s\<rparr>) \<and>
           item_id r = next_rowid s \<and>
           name r = VStr (hd ?args) \<and>
           (\<forall>n. 3 < length ?args \<and> int_of_str (?args ! 3) = Some n \<longrightarrow> quantity r = VInt n) \<and>
           (length ?args \<le> 3 \<or> int_of_str (?args ! 3) = None \<longrightarrow> quantity r = VInt 1)"
    by (rule exI)
next
  assume "strip arg = arg"
  then show "list_all isspace arg = (arg = [])"
    using strip_blank [of arg] by auto
qed

theorem do_add_result_witness:
  "\<not> list_all isspace ''Hammer Claw ShelfA 3'' \<and>
   in_range (next_rowid create_tables) \<and>
   int_of_str (split_maxsplit 3 ''Hammer Claw ShelfA 3'' ! 3) = Some 3 \<and> in_range 3 \<and>
   (\<exists>r. do_add create_tables ''2024-11-03T01:30:00'' ''Hammer Claw ShelfA 3'' =
          Inr (Added_item_with_ID 1, create_tables\<lparr>rows := [r], seq := 1\<rparr>) \<and>
        name r = VStr ''Hammer'' \<and> quantity r = VInt 3) \<and>
   do_add create_tables ''2024-11-03T01:30:00'' [] = Inr (Error_item_name_required, create_tables) \<and>
   int_of_str (split_maxsplit 3 ''Saw Hand ShelfB 9223372036854775808'' ! 3)
     = Some 9223372036854775808 \<and>
   \<not> in_range 9223372036854775808 \<and>
   do_add shelf ''2024-11-03T01:30:00'' ''Saw Hand ShelfB 9223372036854775808''
     = Inl OverflowError"
proof -
  let ?line = "''Hammer Claw ShelfA 3''"
  let ?big = "''Saw Hand ShelfB 9223372036854775808''"
  let ?t = "''2024-11-03T01:30:00''"
  have 1: "\<not> list_all isspace ?line" by code_simp
  have 2: "split_maxsplit 3 ?line = [''Hammer'', ''Claw'', ''ShelfA'', ''3'']"
    by code_simp
  have 3: "int_of_str ''3'' = Some 3" by code_simp
  have 4: "next_rowid create_tables = 1" "rows create_tables = []"
    by (simp_all add: next_rowid_def create_tables_def)
  have 5: "in_range 3" "in_range 1" "\<not> in_range 9223372036854775808"
    by (simp_all add: in_range_def)
  have 6: "split_maxsplit 3 ?big = [''Saw'', ''Hand'', ''ShelfB'', ''9223372036854775808'']"
    by code_simp
  have 7: "int_of_str ''9223372036854775808'' = Some 9223372036854775808" by code_simp
  have c: "int_of_str (split_maxsplit 3 ?line ! 3) = Some 3"
    unfolding 2 using 3 by simp
  have d: "int_of_str (split_maxsplit 3 ?big ! 3) = Some 9223372036854775808"
    unfolding 6 using 7 by simp
  have n: "in_range (next_rowid create_tables)"
    unfolding 4 by (rule 5)
  have q: "\<forall>n. 3 < length (split_maxsplit 3 ?line) \<and>
       int_of_str (split_maxsplit 3 ?line ! 3) = Some n \<longrightarrow> in_range n"
    using c 5(1) by auto
  note th = do_add_result [of ?line create_tables ?t]
  from th 1 n q
  obtain r where r: "do_add create_tables ?t ?line =
              Inr (Added_item_with_ID (next_rowid create_tables),
                   create_tables\<lparr>rows := rows create_tables @ [r], seq := next_rowid create_tables\<rparr>)"
      "name r = VStr (hd (split_maxsplit 3 ?line))"
      "\<forall>n. 3 < length (split_maxsplit 3 ?line) \<and>
           int_of_str (split_maxsplit 3 ?line ! 3) = Some n \<longrightarrow> quantity r = VInt n"
    by blast
  have len: "3 < length (split_maxsplit 3 ?line)" unfolding 2 by simp
  from r(3) len c have "quantity r = VInt 3" by blast
  moreover from r(2) have "name r = VStr ''Hammer''" unfolding 2 by simp
  moreover from r(1) have "do_add create_tables ?t ?line =
          Inr (Added_item_with_ID 1, create_tables\<lparr>rows := [r], seq := 1\<rparr>)"
    unfolding 4 by simp
  ultimately have a: "\<exists>r. do_add create_tables ?t ?line =
          Inr (Added_item_with_ID 1, create_tables\<lparr>rows := [r], seq := 1\<rparr>) \<and>
        name r = VStr ''Hammer'' \<and> quantity r = VInt 3"
    by blast
  have "list_all isspace []" by simp
  with do_add_result [of "[]" create_tables ?t]
  have b: "do_add create_tables ?t [] = Inr (Error_item_name_required, create_tables)"
    by blast
  have "3 < length (split_maxsplit 3 ?big)" unfolding 6 by simp
  with d 5(3) do_add_result [of ?big shelf ?t]
  have e: "do_add shelf ?t ?big = Inl OverflowError"
    by blast
  from 1 n c 5(1) a b d 5(3) e show ?thesis
    by (intro conjI)
qed

text \<open>
  C8 as the claim states it fails on the line \<^verbatim>\<open>Saw Hand ShelfB 9223372036854775808\<close>:
  the line is not empty and \<^verbatim>\<open>int\<close> reads its fourth token, but SQLite has no such
  integer, \<^verbatim>\<open>add_item\<close> raises \<^verbatim>\<open>OverflowError\<close>, and no item is added. It fails
  too on a line that is not empty and holds only whitespace: no item is added.
\<close>

theorem do_add_overflow_counterexample:
  "split_maxsplit 3 ''Saw Hand ShelfB 9223372036854775808''
     = [''Saw'', ''Hand'', ''ShelfB'', ''9223372036854775808''] \<and>
   py_int (VStr ''9223372036854775808'') = Inr 9223372036854775808 \<and>
   do_add shelf ''2024-11-03T02:00:00'' ''Saw Hand ShelfB 9223372036854775808''
     = Inl OverflowError \<and>
   '' '' \<noteq> [] \<and>
   do_add shelf ''2024-11-03T02:00:00'' '' '' = Inr (Error_item_name_required, shelf)"
  by code_simp

text \<open>
  C10. On a line of more than four tokens, \<^verbatim>\<open>arg.split(maxsplit=3)\<close> is the first
  three tokens and then the rest of the line from its fourth token on, to the end of the
  line; the rest holds the other tokens, so it contains whitespace and \<^verbatim>\<open>int\<close>
  rejects it; \<^verbatim>\<open>do_add\<close> adds an item whose description and location are the second
  and the third token and whose quantity is 1.
\<close>

theorem do_add_many_tokens:
  assumes "4 < length (tokens arg)"
  shows "split_maxsplit 3 arg = take 3 (tokens arg) @ [remainder 3 arg] \<and>
         suffix (remainder 3 arg) arg \<and>
         tokens (remainder 3 arg) = drop 3 (tokens arg) \<and>
         (\<exists>c\<in>set (remainder 3 arg). isspace c) \<and>
         py_int (VStr (remainder 3 arg)) = Inl ValueError \<and>
         (\<exists>r. do_add s t arg =
                Inr (Added_item_with_ID (next_rowid s),
                     s\<lparr>rows := rows s @ [r], seq := next_rowid s\<rparr>) \<and>
              name r = VStr (tokens arg ! 0) \<and>
              description r = VStr (tokens arg ! 1) \<and>
              location r = VStr (tokens arg ! 2) \<and>
              quantity r = VInt 1)"
proof -
  let ?rest = "remainder 3 arg"
  let ?args = "split_maxsplit 3 arg"
  from assms have "?rest \<noteq> []" by (simp add: remainder_empty_iff)
  then have args: "?args = take 3 (tokens arg) @ [?rest]"
    by (simp add: split_maxsplit_tokens)
  have toks: "tokens ?rest = drop 3 (tokens arg)" by (rule tokens_remainder)
  with assms have two: "1 < length (tokens ?rest)" by simp
  then have sp: "\<exists>c\<in>set ?rest. isspace c" by (rule tokens_two_space)
  have "int_of_str ?rest = None"
  proof (cases "int_of_str ?rest")
    case None
    then show ?thesis .
  next
    case (Some n)
    then have "length (tokens ?rest) \<le> 1" by (rule int_of_str_tokens)
    with two show ?thesis by simp
  qed
  then have pi: "py_int (VStr ?rest) = Inl ValueError" by simp
  from assms have len: "length (take 3 (tokens arg)) = 3" by simp
  have nth: "?args ! 0 = tokens arg ! 0" "?args ! 1 = tokens arg ! 1"
       "?args ! 2 = tokens arg ! 2" "?args ! 3 = ?rest" "length ?args = 4"
    using len assms by (simp_all add: args nth_append)
  have ne: "?args \<noteq> []" using args by simp
  define r where "r = \<lparr>item_id = next_rowid s, name = VStr (tokens arg ! 0),
      description = VStr (tokens arg ! 1), location = VStr (tokens arg ! 2),
      quantity = VInt 1, date_added = t, last_modified = t\<rparr>"
  have "do_add s t arg =
      Inr (Added_item_with_ID (next_rowid s), s\<lparr>rows := rows s @ [r], seq := next_rowid s\<rparr>)"
    using ne nth pi by (simp add: do_add_def Let_def add_item_def r_def in_range_1)
  moreover have "name r = VStr (tokens arg ! 0)" "description r = VStr (tokens arg ! 1)"
    "location r = VStr (tokens arg ! 2)" "quantity r = VInt 1"
    by (simp_all add: r_def)
  ultimately have "do_add s t arg =
                Inr (Added_item_with_ID (next_rowid s),
                     s\<lparr>rows := rows s @ [r], seq := next_rowid s\<rparr>) \<and>
              name r = VStr (tokens arg ! 0) \<and>
              description r = VStr (tokens arg ! 1) \<and>
              location r = VStr (tokens arg ! 2) \<and>
              quantity r = VInt 1"
    by (intro conjI)
  then have "\<exists>r. do_add s t arg =
                Inr (Added_item_with_ID (next_rowid s),
                     s\<lparr>rows := rows s @ [r], seq := next_rowid s\<rparr>) \<and>
              name r = VStr (tokens arg ! 0) \<and>
              description r = VStr (tokens arg ! 1) \<and>
              location r = VStr (tokens arg ! 2) \<and>
              quantity r = VInt 1"
    by (rule exI)
  with args toks sp pi remainder_suffix [of 3 arg] show ?thesis by blast
qed

theorem do_add_many_tokens_witness:
  "4 < length (tokens ''saw hand shelf 5 6'') \<and>
   split_maxsplit 3 ''saw hand shelf 5 6'' = [''saw'', ''hand'', ''shelf'', ''5 6''] \<and>
   py_int (VStr ''5 6'') = Inl ValueError \<and>
   (\<exists>r. do_add create_tables ''2024-11-03T01:30:00'' ''saw hand shelf 5 6'' =
          Inr (Added_item_with_ID 1, create_tables\<lparr>rows := [r], seq := 1\<rparr>) \<and>
        description r = VStr ''hand'' \<and> location r = VStr ''shelf'' \<and> quantity r = VInt 1)"
proof -
  have 1: "tokens ''saw hand shelf 5 6'' = [''saw'', ''hand'', ''shelf'', ''5'', ''6'']"
    by code_simp
  then have 2: "4 < length (tokens ''saw hand shelf 5 6'')" by simp
  have 3: "remainder 3 ''saw hand shelf 5 6'' = ''5 6''" by code_simp
  have 4: "next_rowid create_tables = 1" "rows create_tables = []"
    by (simp_all add: next_rowid_def create_tables_def)
  have 5: "py_int (VStr ''5 6'') = Inl ValueError" by code_simp
  have 6: "split_maxsplit 3 ''saw hand shelf 5 6'' = [''saw'', ''hand'', ''shelf'', ''5 6'']"
    by code_simp
  from do_add_many_tokens [OF 2, of create_tables "''2024-11-03T01:30:00''"]
  obtain r where "do_add create_tables ''2024-11-03T01:30:00'' ''saw hand shelf 5 6'' =
      Inr (Added_item_with_ID (next_rowid create_tables),
           create_tables\<lparr>rows := rows create_tables @ [r], seq := next_rowid create_tables\<rparr>)"
    "description r = VStr (tokens ''saw hand shelf 5 6'' ! 1)"
    "location r = VStr (tokens ''saw hand shelf 5 6'' ! 2)" "quantity r = VInt 1"
    by blast
  then have "do_add create_tables ''2024-11-03T01:30:00'' ''saw hand shelf 5 6'' =
          Inr (Added_item_with_ID 1, create_tables\<lparr>rows := [r], seq := 1\<rparr>) \<and>
        description r = VStr ''hand'' \<and> location r = VStr ''shelf'' \<and> quantity r = VInt 1"
    by (simp add: 1 4)
  then have "\<exists>r. do_add create_tables ''2024-11-03T01:30:00'' ''saw hand shelf 5 6'' =
          Inr (Added_item_with_ID 1, create_tables\<lparr>rows := [r], seq := 1\<rparr>) \<and>
        description r = VStr ''hand'' \<and> location r = VStr ''shelf'' \<and> quantity r = VInt 1"
    by (rule exI)
  with 2 5 6 show ?thesis by (intro conjI)
qed

end
